theory Spec2Isabelle
  imports Main "HOL-Library.Word" "HOL-Library.Sublist" "HOL-Library.AList"
begin

section \<open>Values, the heap and outcomes\<close>

text \<open>
  The package works on Go values of dynamic type (\<^verbatim>\<open>interface{}\<close>) as a JSON decoder
  produces them: \<^verbatim>\<open>nil\<close>, booleans, numbers, strings, \<^verbatim>\<open>map[string]interface{}\<close> and
  \<^verbatim>\<open>[]interface{}\<close>. Maps and slices are references: a map value names a map object, a
  slice value is a header (backing array, offset, length). The mutation functions write
  through these references, so the containers live in an explicit heap and a value only
  holds their address. A fresh slice built by the code (\<^verbatim>\<open>res := []interface{}{}\<close> followed
  by \<^verbatim>\<open>append\<close>) is a new cell at the end of the heap.

  A \<^verbatim>\<open>float64\<close> is kept as its 64 bits; no arithmetic on it is modelled. Go's \<^verbatim>\<open>int\<close> is
  modelled by \<open>int\<close>: \<^verbatim>\<open>strconv.Atoi\<close> only yields values of 64 bits, and the only sums the
  code forms from them are \<^verbatim>\<open>length + idx\<close> with a negative \<^verbatim>\<open>idx\<close> (which cannot overflow)
  and \<^verbatim>\<open>tv + 1\<close>, whose wrapped value at the largest \<^verbatim>\<open>int\<close> is negative and takes the same
  error branch as the unwrapped one.

  Strings are byte sequences. The loops over a string (\<^verbatim>\<open>for idx, x := range s\<close>) are
  modelled byte by byte, which builds the same tokens as Go's iteration by code point
  whenever the string is valid UTF-8, since every character the code tests for is ASCII.
\<close>

type_synonym addr = nat

datatype val =
    VNil
  | VBool bool
  | VInt int
  | VFloat "64 word"
  | VStr string
  | VMap addr
  | VSlice addr nat nat

text \<open>
  A map cell is an association list; its order stands for the iteration order of the map
  (which Go leaves unspecified). Lookup is \<open>map_of\<close>, \<^verbatim>\<open>SetMapIndex\<close> is \<open>AList.update\<close>.
\<close>

datatype cell = CMap "(string \<times> val) list" | CArr "val list"

type_synonym heap = "cell list"

datatype op_t = NoOp | RootOp | KeyOp | IndexOp | RangeOp | FilterOp | ExpressionOp | ScanOp

datatype args_t =
    ANil
  | AStr string
  | AInts "int list"
  | ARange "int option" "int option"

record step =
  s_op :: op_t
  s_key :: string
  s_args :: args_t

record Compiled =
  c_path :: string
  c_steps :: "step list"

text \<open>Every error value the package creates, one constructor per site.\<close>

datatype err =
    ErrGetFromNullObj
  | NotExist string
  | ErrShouldStartWithRoot
  | ErrRootInFront
  | ErrTailLen string
  | ErrFilterParenthesis string
  | ErrInvalidFilter string
  | ErrOneRange "string list"
  | ErrAtoi string
  | ErrNotMapOrSlice
  | ErrNotSlice
  | ErrIndexOutOfRange int int
  | ErrFromOutOfRange int int
  | ErrToOutOfRange int int
  | ErrEmptyIndex
  | ErrRangeArgs
  | ErrNotSupportedInFilter
  | ErrMultipleIndexInFilter
  | ErrFilterInvalidChar nat char
  | ErrInvalidFilterOperand string
  | ErrNotImplemented
  | ErrInvalidOperation string
  | ErrInvalidExpression
  | ErrFilterUnsupportedType
  | ErrEmptyRule
  | ErrRegexpForm
  | ErrRegexpCompile string
  | ErrNilPat
  | ErrOnlyStringMatch
  | ErrEval string
  | ErrIncorrectSetPath string
  | ErrSetUnsupported op_t
  | ErrCouldNotSet string

text \<open>
  The run-time panics of Go that the code can reach, and \<open>PanicHeap\<close> for a reference
  that names no cell of the right kind (which no Go program can build).
\<close>

datatype panic =
    PanicIndex
  | PanicSliceBounds
  | PanicNilType
  | PanicTypeAssert
  | PanicZeroValue
  | PanicHeap

text \<open>
  The outcome of a call: a result, an error value, a panic, or \<open>OutOfFuel\<close> when the
  recursion of \<^verbatim>\<open>get_key\<close> or \<^verbatim>\<open>Set\<close> through nested slices goes deeper than the fuel given.
\<close>

datatype 'a res = Ok 'a | Err err | Panic panic | OutOfFuel

section \<open>String functions of the Go library\<close>

definition has_prefix :: "string \<Rightarrow> string \<Rightarrow> bool" where
  "has_prefix s p = (take (length p) s = p)"

definition has_suffix :: "string \<Rightarrow> string \<Rightarrow> bool" where
  "has_suffix s p = (length p \<le> length s \<and> drop (length s - length p) s = p)"

fun index_byte :: "string \<Rightarrow> char \<Rightarrow> nat option" where
  "index_byte [] c = None"
| "index_byte (x # xs) c =
     (if x = c then Some 0 else map_option Suc (index_byte xs c))"

definition last_index_byte :: "string \<Rightarrow> char \<Rightarrow> nat option" where
  "last_index_byte s c =
     (case index_byte (rev s) c of None \<Rightarrow> None | Some i \<Rightarrow> Some (length s - 1 - i))"

text \<open>
  \<^verbatim>\<open>strings.TrimSpace\<close> on ASCII text: the white space it removes at both ends is the
  space, the tab, the line feed, the vertical tab, the form feed and the carriage return.
  \<^verbatim>\<open>strings.Trim(s, " ")\<close> removes only spaces. A string is the list of its bytes.
\<close>

definition is_space :: "char \<Rightarrow> bool" where
  "is_space c = (c = CHR '' '' \<or> c = CHR 0x09 \<or> c = CHR 0x0A \<or> c = CHR 0x0B
                 \<or> c = CHR 0x0C \<or> c = CHR 0x0D)"

definition trim_space :: "string \<Rightarrow> string" where
  "trim_space s = rev (dropWhile is_space (rev (dropWhile is_space s)))"

definition trim_blank :: "string \<Rightarrow> string" where
  "trim_blank s = rev (dropWhile (\<lambda>c. c = CHR '' '') (rev (dropWhile (\<lambda>c. c = CHR '' '') s)))"

fun split_on :: "char \<Rightarrow> string \<Rightarrow> string \<Rightarrow> string list" where
  "split_on c [] cur = [cur]"
| "split_on c (x # xs) cur =
     (if x = c then cur # split_on c xs [] else split_on c xs (cur @ [x]))"

definition split_byte :: "string \<Rightarrow> char \<Rightarrow> string list" where
  "split_byte s c = split_on c s []"

definition is_digit :: "char \<Rightarrow> bool" where
  "is_digit c = ((48::nat) \<le> of_char c \<and> (of_char c :: nat) \<le> 57)"

fun digits_value :: "string \<Rightarrow> int \<Rightarrow> int" where
  "digits_value [] acc = acc"
| "digits_value (c # cs) acc = digits_value cs (acc * 10 + (int (of_char c :: nat) - 48))"

definition atoi :: "string \<Rightarrow> int res" where
  "atoi s =
     (let (neg, ds) = (case s of
                         [] \<Rightarrow> (False, s)
                       | c # r \<Rightarrow> if c = CHR ''-'' then (True, r)
                                  else if c = CHR ''+'' then (False, r) else (False, s))
      in if ds = [] \<or> \<not> list_all is_digit ds then Err (ErrAtoi s)
         else (let n = digits_value ds 0; v = (if neg then - n else n)
               in if v < - (2 ^ 63) \<or> 2 ^ 63 - 1 < v then Err (ErrAtoi s) else Ok v))"

section \<open>Compilation\<close>

definition tokenize_finish :: "string list \<Rightarrow> string \<Rightarrow> string list res" where
  "tokenize_finish tokens token0 =
     (if 0 < length token0 then
        (let token = (if hd token0 = CHR ''.'' then tl token0 else token0)
         in if token \<noteq> ''*'' then Ok (tokens @ [token])
            else if tokens = [] then Panic PanicIndex
            else if last tokens \<noteq> ''*'' then Ok (tokens @ [token])
            else Ok tokens)
      else Ok tokens)"

text \<open>
  The body of the loop of \<^verbatim>\<open>tokenize\<close> for \<^verbatim>\<open>idx > 0\<close>. The token is never empty after
  \<^verbatim>\<open>token += string(x)\<close>, so \<^verbatim>\<open>token[0]\<close> is \<open>hd token\<close>.
\<close>

fun tokenize_loop :: "string \<Rightarrow> string list \<Rightarrow> string \<Rightarrow> string list res" where
  "tokenize_loop [] tokens token = tokenize_finish tokens token"
| "tokenize_loop (x # rest) tokens token0 =
     (let token = token0 @ [x] in
      if token = ''.'' then tokenize_loop rest tokens token
      else if token = ''..'' then
        (if tokens = [] then Panic PanicIndex
         else tokenize_loop rest
                (if last tokens \<noteq> ''*'' then tokens @ [''*''] else tokens) ''.'')
      else if CHR ''['' \<in> set token then
        (if x = CHR '']'' \<and> \<not> has_suffix token [CHR 0x5C, CHR '']''] then
           tokenize_loop rest
             (tokens @ [if hd token = CHR ''.'' then tl token else token]) []
         else tokenize_loop rest tokens token)
      else if x = CHR ''.'' then
        tokenize_loop rest
          (tokens @ [if hd token = CHR ''.'' then butlast (tl token) else butlast token])
          ''.''
      else tokenize_loop rest tokens token)"

definition tokenize :: "string \<Rightarrow> string list res" where
  "tokenize query =
     (case query of
        [] \<Rightarrow> Ok []
      | x # rest \<Rightarrow>
          if [x] = ''$'' \<or> [x] = ''@'' then tokenize_loop rest [[x]] []
          else Err ErrShouldStartWithRoot)"

definition checkFilter :: "string \<Rightarrow> bool" where
  "checkFilter flt = (has_prefix flt ''@.'' \<or> has_prefix flt ''$.'')"

text \<open>
  \<^verbatim>\<open>s[first+1 : last]\<close>: a slice expression panics when its bounds are not ordered.
\<close>

definition substring :: "string \<Rightarrow> nat \<Rightarrow> nat \<Rightarrow> string res" where
  "substring s i j =
     (if i \<le> j \<and> j \<le> length s then Ok (take (j - i) (drop i s)) else Panic PanicSliceBounds)"

definition extractExpression :: "string \<Rightarrow> (string \<times> bool) res" where
  "extractExpression expr =
     (case (index_byte expr (CHR ''(''), last_index_byte expr (CHR '')'')) of
        (Some first_i, Some last_i) \<Rightarrow>
          (case substring expr (first_i + 1) last_i of
             Ok e \<Rightarrow> Ok (trim_space e, checkFilter (trim_space e))
           | Err e \<Rightarrow> Err e | Panic p \<Rightarrow> Panic p | OutOfFuel \<Rightarrow> OutOfFuel)
      | _ \<Rightarrow> Ok ('''', False))"

text \<open>
  The range branch of \<^verbatim>\<open>parse_token\<close>. Both conversions assign the same variable \<^verbatim>\<open>err\<close>:
  what the first one stored is overwritten by the second.
\<close>

definition parse_range_side :: "string \<Rightarrow> int option \<times> err option" where
  "parse_range_side side =
     (case atoi (trim_blank side) of
        Ok i \<Rightarrow> (Some i, None)
      | Err e \<Rightarrow> (None, if trim_blank side = '''' then None else Some e)
      | _ \<Rightarrow> (None, None))"

definition parse_range :: "string list \<Rightarrow> args_t \<times> err option" where
  "parse_range tails =
     (let (frm, err1) = parse_range_side (tails ! 0);
          (to, err2) = parse_range_side (tails ! 1)
      in (ARange frm to, err2))"

fun parse_indexes :: "string list \<Rightarrow> int list \<Rightarrow> int list res" where
  "parse_indexes [] res = Ok res"
| "parse_indexes (x # xs) res =
     (case atoi (trim_blank x) of
        Ok i \<Rightarrow> parse_indexes xs (res @ [i])
      | Err e \<Rightarrow> Err e | Panic p \<Rightarrow> Panic p | OutOfFuel \<Rightarrow> OutOfFuel)"

text \<open>
  \<^verbatim>\<open>parse_token\<close> returns \<^verbatim>\<open>(op, key, args, err)\<close>; the four are returned together also when
  \<^verbatim>\<open>err\<close> is set, and one caller reads \<^verbatim>\<open>op\<close> without looking at \<^verbatim>\<open>err\<close>. The outcome is
  \<open>Ok\<close> of the four, or a panic of a slice expression.
\<close>

definition parse_token :: "string \<Rightarrow> (op_t \<times> string \<times> args_t \<times> err option) res" where
  "parse_token token =
     (if token = ''$'' then Ok (RootOp, ''$'', ANil, None)
      else if token = ''*'' then Ok (ScanOp, ''*'', ANil, None)
      else case index_byte token (CHR ''['') of
        None \<Rightarrow> Ok (KeyOp, token, ANil, None)
      | Some bracket_idx \<Rightarrow>
         (let key = take bracket_idx token; tail0 = drop bracket_idx token in
          if length tail0 < 3 then Ok (NoOp, key, ANil, Some (ErrTailLen tail0))
          else
           (let tail = butlast (tl tail0) in
            if hd tail = CHR 0x27 \<and> 2 < length tail
            then Ok (KeyOp, key, AStr (butlast (tl tail)), None)
            else if CHR ''?'' \<in> set tail then
              (case (index_byte tail (CHR ''(''), last_index_byte tail (CHR '')'')) of
                 (Some first_i, Some last_i) \<Rightarrow>
                   (case substring tail (first_i + 1) last_i of
                      Ok f \<Rightarrow>
                        (let flt = trim_space f in
                         Ok (FilterOp, key, AStr flt,
                             if \<not> checkFilter flt then Some (ErrInvalidFilter tail) else None))
                    | Err e \<Rightarrow> Err e | Panic p \<Rightarrow> Panic p | OutOfFuel \<Rightarrow> OutOfFuel)
               | _ \<Rightarrow> Ok (NoOp, key, ANil, Some (ErrFilterParenthesis tail)))
            else case extractExpression tail of
              Panic p \<Rightarrow> Panic p | Err e \<Rightarrow> Err e | OutOfFuel \<Rightarrow> OutOfFuel
            | Ok (expr, ok) \<Rightarrow>
               if ok then Ok (ExpressionOp, key, AStr expr, None)
               else if CHR '':'' \<in> set tail then
                 (let tails = split_byte tail (CHR '':'') in
                  if length tails \<noteq> 2 then Ok (RangeOp, key, ANil, Some (ErrOneRange tails))
                  else (let (a, e) = parse_range tails in Ok (RangeOp, key, a, e)))
               else if tail = ''*'' then Ok (RangeOp, key, ARange None None, None)
               else
                 (case parse_indexes (split_byte tail (CHR '','')) [] of
                    Ok res \<Rightarrow> Ok (IndexOp, key, AInts res, None)
                  | Err e \<Rightarrow> Ok (NoOp, '''', ANil, Some e)
                  | Panic p \<Rightarrow> Panic p | OutOfFuel \<Rightarrow> OutOfFuel))))"

fun compile_steps :: "string list \<Rightarrow> step list \<Rightarrow> step list res" where
  "compile_steps [] acc = Ok acc"
| "compile_steps (token # tokens) acc =
     (case parse_token token of
        Ok (op, key, args, None) \<Rightarrow>
          compile_steps tokens (acc @ [\<lparr>s_op = op, s_key = key, s_args = args\<rparr>])
      | Ok (op, key, args, Some e) \<Rightarrow> Err e
      | Err e \<Rightarrow> Err e | Panic p \<Rightarrow> Panic p | OutOfFuel \<Rightarrow> OutOfFuel)"

text \<open>\<^verbatim>\<open>tokens[0]\<close> panics on the empty list of tokens.\<close>

definition Compile :: "string \<Rightarrow> Compiled res" where
  "Compile jpath =
     (case tokenize jpath of
        Err e \<Rightarrow> Err e | Panic p \<Rightarrow> Panic p | OutOfFuel \<Rightarrow> OutOfFuel
      | Ok tokens \<Rightarrow>
         (case tokens of
            [] \<Rightarrow> Panic PanicIndex
          | t0 # tokens' \<Rightarrow>
              if t0 \<noteq> ''@'' \<and> t0 \<noteq> ''$'' then Err ErrRootInFront
              else (case compile_steps tokens' [] of
                      Ok ss \<Rightarrow> Ok \<lparr>c_path = jpath, c_steps = ss\<rparr>
                    | Err e \<Rightarrow> Err e | Panic p \<Rightarrow> Panic p | OutOfFuel \<Rightarrow> OutOfFuel)))"

section \<open>Reading values\<close>

definition map_cell :: "heap \<Rightarrow> addr \<Rightarrow> (string \<times> val) list option" where
  "map_cell h a =
     (if a < length h then (case h ! a of CMap m \<Rightarrow> Some m | CArr xs \<Rightarrow> None) else None)"

text \<open>The elements a slice header shows of its backing array.\<close>

definition slice_elems :: "heap \<Rightarrow> addr \<Rightarrow> nat \<Rightarrow> nat \<Rightarrow> val list option" where
  "slice_elems h a off len =
     (if a < length h then
        (case h ! a of
           CArr xs \<Rightarrow> if off + len \<le> length xs then Some (take len (drop off xs)) else None
         | CMap m \<Rightarrow> None)
      else None)"

text \<open>\<^verbatim>\<open>reflect.Value.Index(i).Interface()\<close> on a slice.\<close>

definition slice_index :: "heap \<Rightarrow> addr \<Rightarrow> nat \<Rightarrow> nat \<Rightarrow> nat \<Rightarrow> val res" where
  "slice_index h a off len i =
     (case slice_elems h a off len of
        None \<Rightarrow> Panic PanicHeap
      | Some xs \<Rightarrow> if i < len then Ok (xs ! i) else Panic PanicIndex)"

text \<open>
  \<^verbatim>\<open>reflect.TypeOf(obj).Kind()\<close> dereferences a nil type when \<^verbatim>\<open>obj\<close> is \<^verbatim>\<open>nil\<close>.
\<close>

definition get_idx :: "heap \<Rightarrow> val \<Rightarrow> int \<Rightarrow> val res" where
  "get_idx h obj idx =
     (case obj of
        VNil \<Rightarrow> Panic PanicNilType
      | VSlice a off len \<Rightarrow>
          (let lgth = int len in
           if 0 \<le> idx then
             (if lgth \<le> idx then Err (ErrIndexOutOfRange lgth idx)
              else slice_index h a off len (nat idx))
           else
             (let idx' = lgth + idx in
              if idx' < 0 then Err (ErrIndexOutOfRange lgth idx)
              else slice_index h a off len (nat idx')))
      | _ \<Rightarrow> Err ErrNotSlice)"

text \<open>
  \<^verbatim>\<open>get_range\<close> returns \<^verbatim>\<open>obj[_frm:_to]\<close>, a header on the same backing array;
  \<^verbatim>\<open>reflect.Value.Slice\<close> panics when \<^verbatim>\<open>_to < _frm\<close>.
\<close>

definition from_or_default :: "int option \<Rightarrow> int" where
  "from_or_default frm = (case frm of None \<Rightarrow> 0 | Some fv \<Rightarrow> fv)"

definition to_or_default :: "int \<Rightarrow> int option \<Rightarrow> int" where
  "to_or_default lgth to = (case to of None \<Rightarrow> lgth - 1 | Some tv \<Rightarrow> tv)"

text \<open>The bounds \<^verbatim>\<open>_frm\<close> and \<^verbatim>\<open>_to\<close> that \<^verbatim>\<open>get_range\<close> computes.\<close>

definition translated_from :: "int \<Rightarrow> int option \<Rightarrow> int" where
  "translated_from lgth frm =
     (let fv = from_or_default frm in if fv < 0 then lgth + fv else fv)"

definition translated_to :: "int \<Rightarrow> int option \<Rightarrow> int" where
  "translated_to lgth to =
     (let tv = to_or_default lgth to in if tv < 0 then lgth + tv + 1 else tv + 1)"

definition get_range :: "val \<Rightarrow> int option \<Rightarrow> int option \<Rightarrow> val res" where
  "get_range obj frm to =
     (case obj of
        VNil \<Rightarrow> Panic PanicNilType
      | VSlice a off len \<Rightarrow>
          (let lgth = int len;
               frm' = translated_from lgth frm;
               to' = translated_to lgth to
           in if frm' < 0 \<or> lgth \<le> frm' then Err (ErrFromOutOfRange lgth (from_or_default frm))
              else if to' < 0 \<or> lgth < to' then Err (ErrToOutOfRange lgth (to_or_default lgth to))
              else if to' < frm' then Panic PanicSliceBounds
              else Ok (VSlice a (off + nat frm') (nat to' - nat frm')))
      | _ \<Rightarrow> Err ErrNotSlice)"

text \<open>Return the error of a failed call, go on with the result of a successful one.\<close>

fun and_then :: "'a res \<times> heap \<Rightarrow> ('a \<Rightarrow> heap \<Rightarrow> 'b res \<times> heap) \<Rightarrow> 'b res \<times> heap" where
  "and_then (Ok v, h) f = f v h"
| "and_then (Err e, h) f = (Err e, h)"
| "and_then (Panic p, h) f = (Panic p, h)"
| "and_then (OutOfFuel, h) f = (OutOfFuel, h)"

text \<open>A slice built by \<^verbatim>\<open>append\<close> becomes a new cell.\<close>

definition new_slice :: "heap \<Rightarrow> val list \<Rightarrow> val res \<times> heap" where
  "new_slice h xs = (Ok (VSlice (length h) 0 (length xs)), h @ [CArr xs])"

text \<open>
  The loop of \<^verbatim>\<open>get_key\<close> over a slice, at index \<open>i\<close> with \<open>k\<close> elements to go;
  \<open>f\<close> is the recursive call. The error of \<^verbatim>\<open>get_idx\<close> is dropped by the code
  (\<^verbatim>\<open>tmp, _ := get_idx(obj, i)\<close>), which leaves \<^verbatim>\<open>tmp\<close> nil.
\<close>

definition value_or_nil :: "val res \<Rightarrow> val res" where
  "value_or_nil r = (case r of Err e \<Rightarrow> Ok VNil | _ \<Rightarrow> r)"

fun get_key_loop ::
  "(heap \<Rightarrow> val \<Rightarrow> val res \<times> heap) \<Rightarrow> val \<Rightarrow> nat \<Rightarrow> nat \<Rightarrow> heap \<Rightarrow> val list
     \<Rightarrow> val list res \<times> heap" where
  "get_key_loop f obj i 0 h res = (Ok res, h)"
| "get_key_loop f obj i (Suc k) h res =
     and_then (value_or_nil (get_idx h obj (int i)), h)
       (\<lambda>tmp h0.
          case f h0 tmp of
            (Ok v, h') \<Rightarrow> get_key_loop f obj (Suc i) k h' (res @ [v])
          | (Err e, h') \<Rightarrow> get_key_loop f obj (Suc i) k h' res
          | (Panic p, h') \<Rightarrow> (Panic p, h')
          | (OutOfFuel, h') \<Rightarrow> (OutOfFuel, h'))"

primrec get_key :: "nat \<Rightarrow> heap \<Rightarrow> val \<Rightarrow> string \<Rightarrow> val res \<times> heap" where
  "get_key 0 h obj key = (OutOfFuel, h)"
| "get_key (Suc n) h obj key =
     (case obj of
        VNil \<Rightarrow> (Err ErrGetFromNullObj, h)
      | VMap a \<Rightarrow>
          (case map_cell h a of
             None \<Rightarrow> (Panic PanicHeap, h)
           | Some jsonMap \<Rightarrow>
               (case map_of jsonMap key of
                  None \<Rightarrow> (Err (NotExist key), h)
                | Some v \<Rightarrow> (Ok v, h)))
      | VSlice a off len \<Rightarrow>
          and_then (get_key_loop (\<lambda>h' tmp. get_key n h' tmp key) obj 0 len h [])
            (\<lambda>res h'. if length res = 0 then (Err (NotExist key), h') else new_slice h' res)
      | _ \<Rightarrow> (Err ErrNotMapOrSlice, h))"

text \<open>
  \<^verbatim>\<open>lookupKey\<close> returns the pair (parent, child) together with the error, also when the
  error is set.
\<close>

definition lookupKey ::
  "nat \<Rightarrow> heap \<Rightarrow> val \<Rightarrow> step \<Rightarrow> ((val \<times> val) \<times> err option) res \<times> heap" where
  "lookupKey n h obj s =
     (let parent = obj;
          subKey0 = (case s_args s of AStr x \<Rightarrow> x | _ \<Rightarrow> '''');
          swap = (s_key s = '''' \<and> subKey0 \<noteq> '''');
          key = (if swap then subKey0 else s_key s);
          subKey = (if swap then '''' else subKey0)
      in case get_key n h obj key of
           (Err e, h') \<Rightarrow> (Ok ((parent, VNil), Some e), h')
         | (Panic p, h') \<Rightarrow> (Panic p, h')
         | (OutOfFuel, h') \<Rightarrow> (OutOfFuel, h')
         | (Ok obj', h') \<Rightarrow>
             if subKey \<noteq> '''' then
               (case get_key n h' obj' subKey of
                  (Ok v, h'') \<Rightarrow> (Ok ((obj', v), None), h'')
                | (Err e, h'') \<Rightarrow> (Ok ((obj', VNil), Some e), h'')
                | (Panic p, h'') \<Rightarrow> (Panic p, h'')
                | (OutOfFuel, h'') \<Rightarrow> (OutOfFuel, h''))
             else (Ok ((parent, obj'), None), h'))"

section \<open>Filters and expressions\<close>

text \<open>
  The loop of \<^verbatim>\<open>filter_get_from_explicit_path\<close>. It reads \<^verbatim>\<open>op\<close> without looking at the
  error of \<^verbatim>\<open>parse_token\<close>.
\<close>

fun explicit_path_loop :: "nat \<Rightarrow> string list \<Rightarrow> heap \<Rightarrow> val \<Rightarrow> val res \<times> heap" where
  "explicit_path_loop n [] h xobj = (Ok xobj, h)"
| "explicit_path_loop n (s # steps) h xobj =
     and_then (parse_token s, h)
       (\<lambda>(op, key, args, err) h0.
          case op of
            KeyOp \<Rightarrow> and_then (get_key n h0 xobj key) (\<lambda>v h'. explicit_path_loop n steps h' v)
          | IndexOp \<Rightarrow>
             (case args of
                AInts idxs \<Rightarrow>
                  if length idxs \<noteq> 1 then (Err ErrMultipleIndexInFilter, h0)
                  else and_then (get_key n h0 xobj key)
                         (\<lambda>v h'. and_then (get_idx h' v (idxs ! 0), h')
                                   (\<lambda>w h''. explicit_path_loop n steps h'' w))
              | _ \<Rightarrow> (Panic PanicTypeAssert, h0))
          | _ \<Rightarrow> (Err ErrNotSupportedInFilter, h0))"

definition filter_get_from_explicit_path ::
  "nat \<Rightarrow> heap \<Rightarrow> val \<Rightarrow> string \<Rightarrow> val res \<times> heap" where
  "filter_get_from_explicit_path n h obj path =
     and_then (tokenize path, h)
       (\<lambda>steps h0.
          case steps of
            [] \<Rightarrow> (Panic PanicIndex, h0)
          | s0 # steps' \<Rightarrow>
              if s0 \<noteq> ''@'' \<and> s0 \<noteq> ''$'' then (Err ErrRootInFront, h0)
              else explicit_path_loop n steps' h0 obj)"

definition get_lp_v :: "nat \<Rightarrow> heap \<Rightarrow> val \<Rightarrow> val \<Rightarrow> string \<Rightarrow> val res \<times> heap" where
  "get_lp_v n h obj root lp =
     (if has_prefix lp ''@.'' then filter_get_from_explicit_path n h obj lp
      else if has_prefix lp ''$.'' then filter_get_from_explicit_path n h root lp
      else (Err (ErrInvalidFilterOperand lp), h))"

text \<open>
  What the package takes from other libraries: the comparison of two values, which
  \<^verbatim>\<open>cmpAny\<close> leaves to \<^verbatim>\<open>isNumber\<close>, \<^verbatim>\<open>fmt.Sprintf\<close> and \<^verbatim>\<open>types.Eval\<close> once it has checked
  the operator, and regular expressions (\<^verbatim>\<open>regexp.Compile\<close>, \<^verbatim>\<open>MatchString\<close>). They read
  values and write nothing, and are parameters of the model; a compiled pattern is the
  predicate it decides.
\<close>

record ext =
  cmp_eval :: "heap \<Rightarrow> val \<Rightarrow> val \<Rightarrow> string \<Rightarrow> bool res"
  regexp_compile :: "string \<Rightarrow> (string \<Rightarrow> bool) option"

definition cmpAny :: "ext \<Rightarrow> heap \<Rightarrow> val \<Rightarrow> val \<Rightarrow> string \<Rightarrow> bool res" where
  "cmpAny X h obj1 obj2 op =
     (if op = ''<'' \<or> op = ''<='' \<or> op = ''=='' \<or> op = ''>='' \<or> op = ''>''
      then cmp_eval X h obj1 obj2 op
      else Err (ErrInvalidOperation op))"

text \<open>
  \<^verbatim>\<open>regFilterCompile\<close> takes the pattern between the first and the last rune of the rule,
  which must both be \<open>/\<close>. The source counts runes; on ASCII text, which is what the
  model reads, a rune is a byte.
\<close>

definition regFilterCompile :: "ext \<Rightarrow> string \<Rightarrow> (string \<Rightarrow> bool) res" where
  "regFilterCompile X rule =
     (if length rule \<le> 2 then Err ErrEmptyRule
      else if hd rule \<noteq> CHR ''/'' \<or> last rule \<noteq> CHR ''/'' then Err ErrRegexpForm
      else (case regexp_compile X (butlast (tl rule)) of
              None \<Rightarrow> Err (ErrRegexpCompile (butlast (tl rule)))
            | Some pat \<Rightarrow> Ok pat))"

text \<open>The assignment \<^verbatim>\<open>switch stage { case 0: lp = tmp ... }\<close> of \<^verbatim>\<open>parse_filter\<close>.\<close>

definition assign_stage ::
  "nat \<Rightarrow> string \<Rightarrow> string \<times> string \<times> string \<Rightarrow> string \<times> string \<times> string" where
  "assign_stage stage tmp r =
     (case r of (lp, op, rp) \<Rightarrow>
        if stage = 0 then (tmp, op, rp)
        else if stage = 1 then (lp, tmp, rp)
        else if stage = 2 then (lp, op, tmp)
        else (lp, op, rp))"

fun parse_filter_loop ::
  "string \<Rightarrow> nat \<Rightarrow> string \<Rightarrow> nat \<Rightarrow> bool \<Rightarrow> string \<times> string \<times> string
     \<Rightarrow> (string \<times> string \<times> string) res" where
  "parse_filter_loop [] idx tmp stage str_embrace r =
     (if tmp \<noteq> '''' then
        (case r of (lp, op, rp) \<Rightarrow>
           if stage = 0 then Ok (tmp, ''exists'', rp)
           else if stage = 1 then Ok (lp, tmp, rp)
           else if stage = 2 then Ok (lp, op, tmp)
           else Ok (lp, op, rp))
      else Ok r)"
| "parse_filter_loop (c # cs) idx tmp stage str_embrace r =
     (if c = CHR 0x27 then
        (if \<not> str_embrace then parse_filter_loop cs (Suc idx) tmp stage True r
         else parse_filter_loop cs (Suc idx) '''' stage str_embrace (assign_stage stage tmp r))
      else if c = CHR '' '' then
        (if str_embrace then parse_filter_loop cs (Suc idx) (tmp @ [c]) stage str_embrace r
         else if 2 < stage + 1 then Err (ErrFilterInvalidChar idx c)
         else parse_filter_loop cs (Suc idx) '''' (stage + 1) str_embrace
                (assign_stage stage tmp r))
      else parse_filter_loop cs (Suc idx) (tmp @ [c]) stage str_embrace r)"

definition parse_filter :: "string \<Rightarrow> (string \<times> string \<times> string) res" where
  "parse_filter flt = parse_filter_loop flt 0 '''' 0 False ('''', '''', '''')"

definition eval_reg_filter ::
  "nat \<Rightarrow> heap \<Rightarrow> val \<Rightarrow> val \<Rightarrow> string \<Rightarrow> (string \<Rightarrow> bool) \<Rightarrow> bool res \<times> heap" where
  "eval_reg_filter n h obj root lp pat =
     and_then (get_lp_v n h obj root lp)
       (\<lambda>lp_v h'. case lp_v of
                    VStr v \<Rightarrow> (Ok (pat v), h')
                  | _ \<Rightarrow> (Err ErrOnlyStringMatch, h'))"

text \<open>
  \<^verbatim>\<open>eval_filter\<close> keeps going when an operand does not resolve: the operand is then nil.
\<close>

definition nil_on_error :: "val res \<times> heap \<Rightarrow> val res \<times> heap" where
  "nil_on_error r = (value_or_nil (fst r), snd r)"

definition eval_filter ::
  "ext \<Rightarrow> nat \<Rightarrow> heap \<Rightarrow> val \<Rightarrow> val \<Rightarrow> string \<Rightarrow> string \<Rightarrow> string \<Rightarrow> bool res \<times> heap" where
  "eval_filter X n h obj root lp op rp =
     and_then (nil_on_error (get_lp_v n h obj root lp))
       (\<lambda>lp_v h'.
          if op = ''exists'' then (Ok (lp_v \<noteq> VNil), h')
          else if op = ''=~'' then (Err ErrNotImplemented, h')
          else
            and_then
              (if has_prefix rp ''@.''
                 then nil_on_error (filter_get_from_explicit_path n h' obj rp)
               else if has_prefix rp ''$.''
                 then nil_on_error (filter_get_from_explicit_path n h' root rp)
               else (Ok (VStr rp), h'))
              (\<lambda>rp_v h''. (cmpAny X h'' lp_v rp_v op, h'')))"

text \<open>
  The loops of \<^verbatim>\<open>get_filtered\<close>: over the indexes of a slice, and over the keys of a map
  (\<^verbatim>\<open>MapKeys\<close> is taken once, \<^verbatim>\<open>MapIndex\<close> reads the map at every round; the zero value of
  a missing key has no \<^verbatim>\<open>Interface()\<close>). \<open>ev\<close> is the test of one element.
\<close>

fun filter_slice_loop ::
  "(heap \<Rightarrow> val \<Rightarrow> bool res \<times> heap) \<Rightarrow> addr \<Rightarrow> nat \<Rightarrow> nat \<Rightarrow> nat \<Rightarrow> nat \<Rightarrow> heap
     \<Rightarrow> val list \<Rightarrow> val list res \<times> heap" where
  "filter_slice_loop ev a off len i 0 h res = (Ok res, h)"
| "filter_slice_loop ev a off len i (Suc k) h res =
     and_then (slice_index h a off len i, h)
       (\<lambda>tmp h1. and_then (ev h1 tmp)
          (\<lambda>ok h2. filter_slice_loop ev a off len (Suc i) k h2 (if ok then res @ [tmp] else res)))"

fun filter_map_loop ::
  "(heap \<Rightarrow> val \<Rightarrow> bool res \<times> heap) \<Rightarrow> addr \<Rightarrow> string list \<Rightarrow> heap \<Rightarrow> val list
     \<Rightarrow> val list res \<times> heap" where
  "filter_map_loop ev a [] h res = (Ok res, h)"
| "filter_map_loop ev a (kv # kvs) h res =
     (case map_cell h a of
        None \<Rightarrow> (Panic PanicHeap, h)
      | Some m \<Rightarrow>
         (case map_of m kv of
            None \<Rightarrow> (Panic PanicZeroValue, h)
          | Some tmp \<Rightarrow>
              and_then (ev h tmp)
                (\<lambda>ok h2. filter_map_loop ev a kvs h2 (if ok then res @ [tmp] else res))))"

definition get_filtered ::
  "ext \<Rightarrow> nat \<Rightarrow> heap \<Rightarrow> val \<Rightarrow> val \<Rightarrow> string \<Rightarrow> val res \<times> heap" where
  "get_filtered X n h obj root flt =
     and_then (parse_filter flt, h)
       (\<lambda>(lp, op, rp) h0.
          case obj of
            VNil \<Rightarrow> (Panic PanicNilType, h0)
          | VSlice a off len \<Rightarrow>
              (if op = ''=~'' then
                 and_then (regFilterCompile X rp, h0)
                   (\<lambda>pat h1. and_then
                      (filter_slice_loop (\<lambda>h' tmp. eval_reg_filter n h' tmp root lp pat)
                         a off len 0 len h1 [])
                      (\<lambda>res h2. new_slice h2 res))
               else
                 and_then
                   (filter_slice_loop (\<lambda>h' tmp. eval_filter X n h' tmp root lp op rp)
                      a off len 0 len h0 [])
                   (\<lambda>res h2. new_slice h2 res))
          | VMap a \<Rightarrow>
              (case map_cell h0 a of
                 None \<Rightarrow> (Panic PanicHeap, h0)
               | Some m \<Rightarrow>
                  (if op = ''=~'' then
                     and_then (regFilterCompile X rp, h0)
                       (\<lambda>pat h1. and_then
                          (filter_map_loop (\<lambda>h' tmp. eval_reg_filter n h' tmp root lp pat)
                             a (map fst m) h1 [])
                          (\<lambda>res h2. new_slice h2 res))
                   else
                     and_then
                       (filter_map_loop (\<lambda>h' tmp. eval_filter X n h' tmp root lp op rp)
                          a (map fst m) h0 [])
                       (\<lambda>res h2. new_slice h2 res)))
          | _ \<Rightarrow> (Err ErrFilterUnsupportedType, h0))"

definition lookupExpression ::
  "nat \<Rightarrow> heap \<Rightarrow> val \<Rightarrow> val \<Rightarrow> step \<Rightarrow> val res \<times> heap" where
  "lookupExpression n h obj rootObj s =
     and_then (get_key n h obj (s_key s))
       (\<lambda>obj' h1.
          case s_args s of
            AStr expr \<Rightarrow>
              and_then (get_lp_v n h1 obj' rootObj expr)
                (\<lambda>key h2. case key of
                             VStr v \<Rightarrow> get_key n h2 obj' v
                           | VInt v \<Rightarrow> (get_idx h2 obj' v, h2)
                           | _ \<Rightarrow> (Err ErrInvalidExpression, h2))
          | _ \<Rightarrow> (Panic PanicTypeAssert, h1))"

section \<open>Lookup\<close>

fun index_loop :: "heap \<Rightarrow> val \<Rightarrow> int list \<Rightarrow> val list \<Rightarrow> val list res" where
  "index_loop h obj [] res = Ok res"
| "index_loop h obj (x # xs) res =
     (case get_idx h obj x of
        Ok tmp \<Rightarrow> index_loop h obj xs (res @ [tmp])
      | Err e \<Rightarrow> Err e | Panic p \<Rightarrow> Panic p | OutOfFuel \<Rightarrow> OutOfFuel)"

text \<open>A step with a key in front of its bracket first resolves the key.\<close>

definition leading_key :: "nat \<Rightarrow> heap \<Rightarrow> val \<Rightarrow> string \<Rightarrow> val res \<times> heap" where
  "leading_key n h obj key = (if 0 < length key then get_key n h obj key else (Ok obj, h))"

fun Lookup_loop ::
  "ext \<Rightarrow> nat \<Rightarrow> val \<Rightarrow> step list \<Rightarrow> heap \<Rightarrow> val \<Rightarrow> val res \<times> heap" where
  "Lookup_loop X n rootObj [] h obj = (Ok obj, h)"
| "Lookup_loop X n rootObj (s # ss) h obj =
     (case s_op s of
        KeyOp \<Rightarrow>
          and_then (lookupKey n h obj s)
            (\<lambda>(parentWithExtracted, err) h'.
               case err of
                 Some e \<Rightarrow> (Err e, h')
               | None \<Rightarrow> Lookup_loop X n rootObj ss h' (snd parentWithExtracted))
      | IndexOp \<Rightarrow>
          and_then (leading_key n h obj (s_key s))
            (\<lambda>obj1 h1.
               case s_args s of
                 AInts idxs \<Rightarrow>
                   if 1 < length idxs then
                     and_then (index_loop h1 obj1 idxs [], h1)
                       (\<lambda>res h2. and_then (new_slice h2 res)
                                    (\<lambda>obj2 h3. Lookup_loop X n rootObj ss h3 obj2))
                   else if length idxs = 1 then
                     and_then (get_idx h1 obj1 (idxs ! 0), h1)
                       (\<lambda>obj2 h2. Lookup_loop X n rootObj ss h2 obj2)
                   else (Err ErrEmptyIndex, h1)
               | _ \<Rightarrow> (Panic PanicTypeAssert, h1))
      | RangeOp \<Rightarrow>
          and_then (leading_key n h obj (s_key s))
            (\<lambda>obj1 h1.
               case s_args s of
                 ARange frm to \<Rightarrow>
                   and_then (get_range obj1 frm to, h1)
                     (\<lambda>obj2 h2. Lookup_loop X n rootObj ss h2 obj2)
               | _ \<Rightarrow> (Err ErrRangeArgs, h1))
      | FilterOp \<Rightarrow>
          and_then (get_key n h obj (s_key s))
            (\<lambda>obj1 h1.
               case s_args s of
                 AStr flt \<Rightarrow>
                   and_then (get_filtered X n h1 obj1 rootObj flt)
                     (\<lambda>obj2 h2. Lookup_loop X n rootObj ss h2 obj2)
               | _ \<Rightarrow> (Panic PanicTypeAssert, h1))
      | ExpressionOp \<Rightarrow>
          and_then (lookupExpression n h obj rootObj s)
            (\<lambda>obj1 h1. Lookup_loop X n rootObj ss h1 obj1)
      | ScanOp \<Rightarrow> (Ok obj, h)
      | _ \<Rightarrow> (Err ErrNotSupportedInFilter, h))"

definition Lookup :: "ext \<Rightarrow> nat \<Rightarrow> Compiled \<Rightarrow> heap \<Rightarrow> val \<Rightarrow> val res \<times> heap" where
  "Lookup X n c h rootObj = Lookup_loop X n rootObj (c_steps c) h rootObj"

definition JsonPathLookup :: "ext \<Rightarrow> nat \<Rightarrow> heap \<Rightarrow> val \<Rightarrow> string \<Rightarrow> val res \<times> heap" where
  "JsonPathLookup X n h obj jpath =
     and_then (Compile jpath, h) (\<lambda>c h'. Lookup X n c h' obj)"

section \<open>Set\<close>

text \<open>
  \<^verbatim>\<open>followPtr\<close> follows pointers, of which the values modelled here have none; on \<^verbatim>\<open>nil\<close>
  it calls \<^verbatim>\<open>Interface()\<close> on the zero \<^verbatim>\<open>reflect.Value\<close>, which panics. (\<^verbatim>\<open>get_key\<close> calls it
  after its own test for \<^verbatim>\<open>nil\<close>.)
\<close>

definition followPtr :: "val \<Rightarrow> val res" where
  "followPtr data = (if data = VNil then Panic PanicZeroValue else Ok data)"

definition stepToPath :: "step \<Rightarrow> string" where
  "stepToPath s =
     (case s_op s of
        KeyOp \<Rightarrow>
          (case s_args s of
             AStr subKey \<Rightarrow> ''$.'' @ s_key s @ ''['' @ [CHR 0x27] @ subKey @ [CHR 0x27] @ '']''
           | _ \<Rightarrow> ''$.'' @ s_key s)
      | _ \<Rightarrow> ''$'')"

definition is_NotExist :: "err \<Rightarrow> bool" where
  "is_NotExist e = (case e of NotExist k \<Rightarrow> True | _ \<Rightarrow> False)"

text \<open>\<^verbatim>\<open>reflect.Value.SetMapIndex\<close> writes into the map the value names.\<close>

definition set_map_index :: "heap \<Rightarrow> addr \<Rightarrow> string \<Rightarrow> val \<Rightarrow> unit res \<times> heap" where
  "set_map_index h a key v =
     (case map_cell h a of
        None \<Rightarrow> (Panic PanicHeap, h)
      | Some m \<Rightarrow> (Ok (), h[a := CMap (AList.update key v m)]))"

text \<open>
  \<^verbatim>\<open>parentVal.Index(idx).Set(v)\<close> writes into the backing array of the slice;
  \<^verbatim>\<open>Index\<close> panics outside \<^verbatim>\<open>[0, len)\<close>.
\<close>

definition set_slice_index ::
  "heap \<Rightarrow> addr \<Rightarrow> nat \<Rightarrow> nat \<Rightarrow> int \<Rightarrow> val \<Rightarrow> unit res \<times> heap" where
  "set_slice_index h a off len idx v =
     (case slice_elems h a off len of
        None \<Rightarrow> (Panic PanicHeap, h)
      | Some xs \<Rightarrow>
          if idx < 0 \<or> int len \<le> idx then (Panic PanicIndex, h)
          else (case h ! a of
                  CArr ys \<Rightarrow> (Ok (), h[a := CArr (ys[off + nat idx := v])])
                | CMap m \<Rightarrow> (Panic PanicHeap, h)))"

text \<open>
  One round of the loop of \<^verbatim>\<open>Set\<close> over the steps, up to the final
  \<^verbatim>\<open>if i != lastStepIdx { parent = child }\<close>; the state is \<^verbatim>\<open>(parent, child, lastError)\<close>.
\<close>

definition Set_step ::
  "ext \<Rightarrow> nat \<Rightarrow> val \<Rightarrow> string \<Rightarrow> bool \<Rightarrow> step \<Rightarrow> heap \<Rightarrow> val \<times> val \<times> err option
     \<Rightarrow> (val \<times> val \<times> err option) res \<times> heap" where
  "Set_step X n rootObj path is_last s h st =
     (case st of (parent, child, lastError) \<Rightarrow>
        case s_op s of
          KeyOp \<Rightarrow>
            and_then (lookupKey n h parent s)
              (\<lambda>(extracted, err) h'.
                 case err of
                   None \<Rightarrow> (Ok (fst extracted, snd extracted, None), h')
                 | Some e \<Rightarrow>
                     if \<not> is_NotExist e \<and> e \<noteq> ErrGetFromNullObj then (Err e, h')
                     else if \<not> is_last then (Err (ErrIncorrectSetPath path), h')
                     else (Ok (fst extracted, snd extracted, Some e), h'))
        | IndexOp \<Rightarrow>
            and_then (leading_key n h parent (s_key s))
              (\<lambda>parent' h1.
                 case s_args s of
                   AInts idxs \<Rightarrow>
                     if length idxs = 1 then
                       and_then (get_idx h1 parent' (idxs ! 0), h1)
                         (\<lambda>child' h2. (Ok (parent', child', lastError), h2))
                     else (Ok (parent', child, lastError), h1)
                 | _ \<Rightarrow> (Panic PanicTypeAssert, h1))
        | FilterOp \<Rightarrow>
            and_then (get_key n h parent (s_key s))
              (\<lambda>child1 h1.
                 case s_args s of
                   AStr flt \<Rightarrow>
                     and_then (get_filtered X n h1 child1 rootObj flt)
                       (\<lambda>child2 h2. (Ok (parent, child2, lastError), h2))
                 | _ \<Rightarrow> (Panic PanicTypeAssert, h1))
        | ExpressionOp \<Rightarrow>
            and_then (lookupExpression n h parent rootObj s)
              (\<lambda>child' h1. (Ok (parent, child', lastError), h1))
        | op \<Rightarrow> (Err (ErrSetUnsupported op), h))"

fun Set_loop ::
  "ext \<Rightarrow> nat \<Rightarrow> val \<Rightarrow> string \<Rightarrow> step list \<Rightarrow> heap \<Rightarrow> val \<times> val \<times> err option
     \<Rightarrow> (val \<times> val \<times> err option) res \<times> heap" where
  "Set_loop X n rootObj path [] h st = (Ok st, h)"
| "Set_loop X n rootObj path (s # ss) h st =
     and_then (Set_step X n rootObj path (ss = []) s h st)
       (\<lambda>(parent, child, lastError) h'.
          Set_loop X n rootObj path ss h'
            (if ss \<noteq> [] then child else parent, child, lastError))"

text \<open>
  The loop that sets the last step on every element of a slice; \<open>rec\<close> is the recursive
  call of \<^verbatim>\<open>Set\<close> with the path of the last step.
\<close>

fun Set_broadcast ::
  "(heap \<Rightarrow> val \<Rightarrow> unit res \<times> heap) \<Rightarrow> addr \<Rightarrow> nat \<Rightarrow> nat \<Rightarrow> nat \<Rightarrow> nat \<Rightarrow> heap
     \<Rightarrow> unit res \<times> heap" where
  "Set_broadcast rec a off len i 0 h = (Ok (), h)"
| "Set_broadcast rec a off len i (Suc k) h =
     and_then (slice_index h a off len i, h)
       (\<lambda>elem h1. and_then (rec h1 elem)
          (\<lambda>u h2. Set_broadcast rec a off len (Suc i) k h2))"

text \<open>
  The write after the loop. With a quoted sub-key the code first builds the map
  \<^verbatim>\<open>{subKey: value}\<close>, a new cell.
\<close>

definition Set_final ::
  "(heap \<Rightarrow> val \<Rightarrow> unit res \<times> heap) \<Rightarrow> string \<Rightarrow> step \<Rightarrow> val \<Rightarrow> heap
     \<Rightarrow> val \<times> val \<times> err option \<Rightarrow> unit res \<times> heap" where
  "Set_final rec path lst v h st =
     (case st of (parent, child, lastError) \<Rightarrow>
        case parent of
          VMap a \<Rightarrow>
            (case s_args lst of
               AStr subKey \<Rightarrow>
                 (let newValue = VMap (length h); h1 = h @ [CMap [(subKey, v)]] in
                  case lastError of
                    Some (NotExist k) \<Rightarrow>
                      if k \<noteq> s_key lst then set_map_index h1 a k v
                      else set_map_index h1 a (s_key lst) newValue
                  | _ \<Rightarrow> set_map_index h1 a (s_key lst) newValue)
             | _ \<Rightarrow> set_map_index h a (s_key lst) v)
        | VSlice a off len \<Rightarrow>
            (case s_op lst of
               IndexOp \<Rightarrow>
                 (case s_args lst of
                    AInts idxs \<Rightarrow>
                      if idxs = [] then (Panic PanicIndex, h)
                      else set_slice_index h a off len (idxs ! 0) v
                  | _ \<Rightarrow> (Panic PanicTypeAssert, h))
             | KeyOp \<Rightarrow> Set_broadcast rec a off len 0 len h
             | _ \<Rightarrow> (Ok (), h))
        | _ \<Rightarrow> (Err (ErrCouldNotSet path), h))"

text \<open>
  \<^verbatim>\<open>Set\<close>. After the loop \<^verbatim>\<open>c.steps[lastStepIdx]\<close> panics when the path has no step.
  The fuel bounds the recursion of \<^verbatim>\<open>Set\<close> through the elements of nested slices.
\<close>

primrec Set :: "ext \<Rightarrow> nat \<Rightarrow> heap \<Rightarrow> val \<Rightarrow> string \<Rightarrow> val \<Rightarrow> unit res \<times> heap" where
  "Set X 0 h rootObj path v = (OutOfFuel, h)"
| "Set X (Suc n) h rootObj path v =
     and_then (Compile path, h)
       (\<lambda>c h0. and_then (followPtr rootObj, h0)
          (\<lambda>obj h1. and_then (followPtr v, h1)
             (\<lambda>val h2. and_then (Set_loop X (Suc n) rootObj path (c_steps c) h2 (obj, obj, None))
                (\<lambda>st h3.
                   if c_steps c = [] then (Panic PanicIndex, h3)
                   else Set_final (\<lambda>h' elem. Set X n h' elem (stepToPath (last (c_steps c))) val)
                          path (last (c_steps c)) val h3 st))))"

section \<open>Notions used to state the properties\<close>




text \<open>An instance of the library functions, for evaluating the model on examples.\<close>

definition no_ext :: ext where
  "no_ext = \<lparr>cmp_eval = (\<lambda>h obj1 obj2 op. Err (ErrEval op)), regexp_compile = (\<lambda>rule. None)\<rparr>"

















section \<open>Indexes and slices\<close>






section \<open>Compilation\<close>

text \<open>
  A path that is not empty and does not begin with \<open>$\<close> or \<open>@\<close> is refused by the
  tokenizer with an error value.
\<close>

lemma Compile_without_root:
  "c \<noteq> CHR ''$'' \<Longrightarrow> c \<noteq> CHR ''@'' \<Longrightarrow> Compile (c # cs) = Err ErrShouldStartWithRoot"
  by (simp add: Compile_def tokenize_def)

text \<open>
  Claim C5 (compilation returns its errors as values, also for the empty path). On the
  empty path the tokenizer returns no token and no error, and \<^verbatim>\<open>Compile\<close> then reads
  \<^verbatim>\<open>tokens[0]\<close>: it panics instead of returning the error of its own test for the root
  marker.
\<close>

theorem Compile_empty_path_panics: "Compile '''' = Panic PanicIndex"
  by (simp add: Compile_def tokenize_def)

text \<open>
  Claim C7 (a side of a slice token that is not a number is a syntax error, on either
  side). The error of the lower side is stored in the variable that the conversion of the
  upper side assigns next, so it is lost: \<open>$[a:1]\<close> compiles, to the slice with the lower
  bound unset.
\<close>

theorem Compile_range_from_error_lost:
  "Compile ''$[a:1]'' =
     Ok \<lparr>c_path = ''$[a:1]'',
         c_steps = [\<lparr>s_op = RangeOp, s_key = '''', s_args = ARange None (Some 1)\<rparr>]\<rparr>"
  by code_simp

section \<open>Lookup only allocates\<close>

text \<open>
  Every function that \<^verbatim>\<open>Lookup\<close> calls leaves the cells of the heap as they are and at most
  adds new cells at its end: the heap before is a prefix of the heap after.
\<close>

lemma and_then_frame:
  assumes "prefix h0 (snd r)" and "\<And>v h'. prefix h0 h' \<Longrightarrow> prefix h0 (snd (f v h'))"
  shows "prefix h0 (snd (and_then r f))"
proof (cases r)
  case (Pair x h1)
  with assms show ?thesis by (cases x) simp_all
qed

lemma new_slice_frame: "prefix h0 h \<Longrightarrow> prefix h0 (snd (new_slice h xs))"
  by (simp add: new_slice_def prefix_prefix)

lemma get_key_loop_frame:
  assumes f: "\<And>h x. prefix h0 h \<Longrightarrow> prefix h0 (snd (f h x))"
  shows "prefix h0 h \<Longrightarrow> prefix h0 (snd (get_key_loop f obj i k h res))"
proof (induction k arbitrary: i h res)
  case 0
  then show ?case by simp
next
  case (Suc k)
  show ?case
  proof (simp, rule and_then_frame)
    show "prefix h0 (snd (value_or_nil (get_idx h obj (int i)), h))" using Suc.prems by simp
  next
    fix tmp h'
    assume p: "prefix h0 h'"
    obtain r h'' where fr: "f h' tmp = (r, h'')" by (cases "f h' tmp")
    with f [OF p, of tmp] have p': "prefix h0 h''" by simp
    show "prefix h0 (snd (case f h' tmp of
            (Ok v, h') \<Rightarrow> get_key_loop f obj (Suc i) k h' (res @ [v])
          | (Err e, h') \<Rightarrow> get_key_loop f obj (Suc i) k h' res
          | (Panic p, h') \<Rightarrow> (Panic p, h')
          | (OutOfFuel, h') \<Rightarrow> (OutOfFuel, h')))"
      using fr p' Suc.IH [OF p'] by (cases r) simp_all
  qed
qed

lemma get_key_frame: "prefix h0 h \<Longrightarrow> prefix h0 (snd (get_key n h obj key))"
proof (induction n arbitrary: h obj)
  case 0
  then show ?case by simp
next
  case (Suc n)
  show ?case
  proof (cases obj)
    case (VSlice a off len)
    have "prefix h0 (snd (and_then (get_key_loop (\<lambda>h' tmp. get_key n h' tmp key) obj 0 len h [])
            (\<lambda>res h'. if length res = 0 then (Err (NotExist key), h') else new_slice h' res)))"
      by (rule and_then_frame, rule get_key_loop_frame)
         (use Suc in \<open>simp_all add: new_slice_frame\<close>)
    with VSlice show ?thesis by simp
  qed (use Suc.prems in \<open>simp_all split: option.splits\<close>)
qed

lemma lookupKey_frame: "prefix h0 h \<Longrightarrow> prefix h0 (snd (lookupKey n h obj s))"
proof -
  assume p: "prefix h0 h"
  define subKey0 where "subKey0 = (case s_args s of AStr x \<Rightarrow> x | _ \<Rightarrow> '''')"
  define key where "key = (if s_key s = '''' \<and> subKey0 \<noteq> '''' then subKey0 else s_key s)"
  define subKey where "subKey = (if s_key s = '''' \<and> subKey0 \<noteq> '''' then '''' else subKey0)"
  obtain r h1 where g1: "get_key n h obj key = (r, h1)" by (cases "get_key n h obj key")
  with get_key_frame [OF p, of n obj key] have p1: "prefix h0 h1" by simp
  show ?thesis
  proof (cases r)
    case (Ok obj')
    obtain r2 h2 where g2: "get_key n h1 obj' subKey = (r2, h2)"
      by (cases "get_key n h1 obj' subKey")
    with get_key_frame [OF p1, of n obj' subKey] have p2: "prefix h0 h2" by simp
    show ?thesis
      using Ok g1 g2 p1 p2
      by (cases r2) (simp_all add: lookupKey_def Let_def subKey0_def [symmetric]
            key_def [symmetric] subKey_def [symmetric])
  qed (use g1 p1 in \<open>simp_all add: lookupKey_def Let_def subKey0_def [symmetric]
            key_def [symmetric] subKey_def [symmetric]\<close>)
qed

lemma nil_on_error_frame: "prefix h0 (snd r) \<Longrightarrow> prefix h0 (snd (nil_on_error r))"
  by (simp add: nil_on_error_def)

lemma explicit_path_loop_frame:
  "prefix h0 h \<Longrightarrow> prefix h0 (snd (explicit_path_loop n steps h xobj))"
proof (induction steps arbitrary: h xobj)
  case Nil
  then show ?case by simp
next
  case (Cons s steps)
  show ?case
    by (simp, rule and_then_frame)
       (use Cons in \<open>auto intro!: and_then_frame get_key_frame
          split: op_t.splits args_t.splits\<close>)
qed

lemma filter_get_from_explicit_path_frame:
  "prefix h0 h \<Longrightarrow> prefix h0 (snd (filter_get_from_explicit_path n h obj path))"
  unfolding filter_get_from_explicit_path_def
  by (rule and_then_frame) (auto intro!: explicit_path_loop_frame split: list.splits)

lemma get_lp_v_frame: "prefix h0 h \<Longrightarrow> prefix h0 (snd (get_lp_v n h obj root lp))"
  by (simp add: get_lp_v_def filter_get_from_explicit_path_frame)

lemma eval_reg_filter_frame:
  "prefix h0 h \<Longrightarrow> prefix h0 (snd (eval_reg_filter n h obj root lp pat))"
  unfolding eval_reg_filter_def
  by (rule and_then_frame) (auto intro!: get_lp_v_frame split: val.splits)

lemma eval_filter_frame:
  "prefix h0 h \<Longrightarrow> prefix h0 (snd (eval_filter X n h obj root lp op rp))"
  unfolding eval_filter_def
  by (rule and_then_frame)
     (auto intro!: and_then_frame nil_on_error_frame get_lp_v_frame
        filter_get_from_explicit_path_frame)

lemma filter_slice_loop_frame:
  assumes ev: "\<And>h x. prefix h0 h \<Longrightarrow> prefix h0 (snd (ev h x))"
  shows "prefix h0 h \<Longrightarrow> prefix h0 (snd (filter_slice_loop ev a off len i k h res))"
proof (induction k arbitrary: i h res)
  case 0
  then show ?case by simp
next
  case (Suc k)
  show ?case
    by (simp, rule and_then_frame) (use Suc ev in \<open>auto intro!: and_then_frame\<close>)
qed

lemma filter_map_loop_frame:
  assumes ev: "\<And>h x. prefix h0 h \<Longrightarrow> prefix h0 (snd (ev h x))"
  shows "prefix h0 h \<Longrightarrow> prefix h0 (snd (filter_map_loop ev a kvs h res))"
proof (induction kvs arbitrary: h res)
  case Nil
  then show ?case by simp
next
  case (Cons kv kvs)
  show ?case
    using Cons ev by (auto intro!: and_then_frame split: option.splits)
qed

lemma get_filtered_frame:
  "prefix h0 h \<Longrightarrow> prefix h0 (snd (get_filtered X n h obj root flt))"
  unfolding get_filtered_def
  by (rule and_then_frame)
     (auto intro!: and_then_frame filter_slice_loop_frame filter_map_loop_frame
        eval_filter_frame eval_reg_filter_frame new_slice_frame
        split: val.splits option.splits)

lemma lookupExpression_frame:
  "prefix h0 h \<Longrightarrow> prefix h0 (snd (lookupExpression n h obj rootObj s))"
  unfolding lookupExpression_def
  by (rule and_then_frame)
     (auto intro!: and_then_frame get_key_frame get_lp_v_frame split: args_t.splits val.splits)

lemma leading_key_frame: "prefix h0 h \<Longrightarrow> prefix h0 (snd (leading_key n h obj key))"
  by (simp add: leading_key_def get_key_frame)

lemma Lookup_loop_frame:
  "prefix h0 h \<Longrightarrow> prefix h0 (snd (Lookup_loop X n rootObj ss h obj))"
proof (induction ss arbitrary: h obj)
  case Nil
  then show ?case by simp
next
  case (Cons s ss)
  show ?case
    using Cons
    by (auto intro!: and_then_frame lookupKey_frame leading_key_frame get_key_frame
          get_filtered_frame lookupExpression_frame new_slice_frame
          split: op_t.splits option.splits args_t.splits)
qed

text \<open>
  Claim C9 (read-only evaluation). For every compiled program, every heap and every root,
  the heap before \<^verbatim>\<open>Lookup\<close> is a prefix of the heap after it: every cell that existed (every
  object and every backing array of the tree) is still there with the content it had,
  whatever the outcome (a value, an error, a panic). All that \<^verbatim>\<open>Lookup\<close> adds is the new
  slices it returns.
\<close>

theorem Lookup_read_only:
  "prefix h (snd (Lookup X n c h rootObj))
   \<and> (\<forall>a < length h. snd (Lookup X n c h rootObj) ! a = h ! a)"
proof -
  have p: "prefix h (snd (Lookup X n c h rootObj))"
    by (simp add: Lookup_def Lookup_loop_frame)
  then obtain zs where "snd (Lookup X n c h rootObj) = h @ zs" by (auto simp: prefix_def)
  then have "\<forall>a < length h. snd (Lookup X n c h rootObj) ! a = h ! a"
    by (simp add: nth_append)
  with p show ?thesis by simp
qed

text \<open>The flattening lookup \<open>$.book.t\<close> adds one cell, the slice of the titles.\<close>

theorem Lookup_read_only_witness:
  "Lookup no_ext (Suc (Suc 0))
      \<lparr>c_path = ''$.book.t'', c_steps = [\<lparr>s_op = KeyOp, s_key = ''book'', s_args = ANil\<rparr>,
                                          \<lparr>s_op = KeyOp, s_key = ''t'', s_args = ANil\<rparr>]\<rparr>
      [CMap [(''book'', VSlice 1 0 2)], CArr [VMap 2, VMap 3],
       CMap [(''t'', VStr ''x'')], CMap [(''t'', VStr ''z'')]] (VMap 0)
     = (Ok (VSlice 4 0 2),
        [CMap [(''book'', VSlice 1 0 2)], CArr [VMap 2, VMap 3],
         CMap [(''t'', VStr ''x'')], CMap [(''t'', VStr ''z'')]] @ [CArr [VStr ''x'', VStr ''z'']])
   \<and> prefix [CMap [(''book'', VSlice 1 0 2)], CArr [VMap 2, VMap 3],
         CMap [(''t'', VStr ''x'')], CMap [(''t'', VStr ''z'')]]
        (snd (Lookup no_ext (Suc (Suc 0))
      \<lparr>c_path = ''$.book.t'', c_steps = [\<lparr>s_op = KeyOp, s_key = ''book'', s_args = ANil\<rparr>,
                                          \<lparr>s_op = KeyOp, s_key = ''t'', s_args = ANil\<rparr>]\<rparr>
      [CMap [(''book'', VSlice 1 0 2)], CArr [VMap 2, VMap 3],
       CMap [(''t'', VStr ''x'')], CMap [(''t'', VStr ''z'')]] (VMap 0)))"
proof -
  have "Lookup no_ext (Suc (Suc 0))
      \<lparr>c_path = ''$.book.t'', c_steps = [\<lparr>s_op = KeyOp, s_key = ''book'', s_args = ANil\<rparr>,
                                          \<lparr>s_op = KeyOp, s_key = ''t'', s_args = ANil\<rparr>]\<rparr>
      [CMap [(''book'', VSlice 1 0 2)], CArr [VMap 2, VMap 3],
       CMap [(''t'', VStr ''x'')], CMap [(''t'', VStr ''z'')]] (VMap 0)
     = (Ok (VSlice 4 0 2),
        [CMap [(''book'', VSlice 1 0 2)], CArr [VMap 2, VMap 3],
         CMap [(''t'', VStr ''x'')], CMap [(''t'', VStr ''z'')]] @ [CArr [VStr ''x'', VStr ''z'']])"
    by code_simp
  with Lookup_read_only [of "[CMap [(''book'', VSlice 1 0 2)], CArr [VMap 2, VMap 3],
       CMap [(''t'', VStr ''x'')], CMap [(''t'', VStr ''z'')]]" no_ext "Suc (Suc 0)"
      "\<lparr>c_path = ''$.book.t'', c_steps = [\<lparr>s_op = KeyOp, s_key = ''book'', s_args = ANil\<rparr>,
                                          \<lparr>s_op = KeyOp, s_key = ''t'', s_args = ANil\<rparr>]\<rparr>" "VMap 0"]
  show ?thesis by blast
qed

section \<open>A key step over an array\<close>








section \<open>The wildcard step\<close>

lemma Lookup_loop_scan:
  "Lookup_loop X n rootObj (pre @ \<lparr>s_op = ScanOp, s_key = k, s_args = a\<rparr> # post) h obj
     = Lookup_loop X n rootObj pre h obj"
  by (induction pre arbitrary: h obj)
     (simp_all cong: op_t.case_cong option.case_cong args_t.case_cong if_cong)

text \<open>
  Claim C10 (the wildcard step ends the evaluation wherever it stands). A program with a
  scan step after the steps \<open>pre\<close> evaluates as the program \<open>pre\<close> alone: \<^verbatim>\<open>Lookup\<close> returns
  the value reached before the scan step (or the error met before it), and the steps that
  follow are never consulted. The path \<open>$.a..b\<close> compiles to the steps \<open>a\<close>, scan, \<open>b\<close> and
  is evaluated as \<open>$.a\<close>.
\<close>

theorem Lookup_scan_short_circuits:
  "Lookup X n \<lparr>c_path = p, c_steps = pre @ \<lparr>s_op = ScanOp, s_key = k, s_args = a\<rparr> # post\<rparr>
       h rootObj
     = Lookup X n \<lparr>c_path = q, c_steps = pre\<rparr> h rootObj
   \<and> Compile ''$.a..b''
       = Ok \<lparr>c_path = ''$.a..b'',
             c_steps = [\<lparr>s_op = KeyOp, s_key = ''a'', s_args = ANil\<rparr>,
                        \<lparr>s_op = ScanOp, s_key = ''*'', s_args = ANil\<rparr>,
                        \<lparr>s_op = KeyOp, s_key = ''b'', s_args = ANil\<rparr>]\<rparr>
   \<and> JsonPathLookup X n h rootObj ''$.a..b'' = JsonPathLookup X n h rootObj ''$.a''"
proof -
  have general: "Lookup X n \<lparr>c_path = p, c_steps = pre @ \<lparr>s_op = ScanOp, s_key = k, s_args = a\<rparr> # post\<rparr>
       h rootObj = Lookup X n \<lparr>c_path = q, c_steps = pre\<rparr> h rootObj"
    by (simp add: Lookup_def Lookup_loop_scan)
  have c1: "Compile ''$.a..b''
       = Ok \<lparr>c_path = ''$.a..b'',
             c_steps = [\<lparr>s_op = KeyOp, s_key = ''a'', s_args = ANil\<rparr>,
                        \<lparr>s_op = ScanOp, s_key = ''*'', s_args = ANil\<rparr>,
                        \<lparr>s_op = KeyOp, s_key = ''b'', s_args = ANil\<rparr>]\<rparr>"
    by code_simp
  have c2: "Compile ''$.a''
       = Ok \<lparr>c_path = ''$.a'', c_steps = [\<lparr>s_op = KeyOp, s_key = ''a'', s_args = ANil\<rparr>]\<rparr>"
    by code_simp
  have "JsonPathLookup X n h rootObj ''$.a..b'' = JsonPathLookup X n h rootObj ''$.a''"
    unfolding JsonPathLookup_def c1 c2
    using Lookup_loop_scan [of X n rootObj "[\<lparr>s_op = KeyOp, s_key = ''a'', s_args = ANil\<rparr>]"
        "''*''" ANil "[\<lparr>s_op = KeyOp, s_key = ''b'', s_args = ANil\<rparr>]" h rootObj]
    by (simp add: Lookup_def)
  with general c1 show ?thesis by blast
qed

text \<open>On an object whose member \<open>a\<close> has no \<open>b\<close>, \<open>$.a..b\<close> yields the member \<open>a\<close>.\<close>

theorem Lookup_scan_short_circuits_witness:
  "JsonPathLookup no_ext (Suc 0) [CMap [(''a'', VMap 1)], CMap [(''c'', VInt 1)]] (VMap 0) ''$.a..b''
     = (Ok (VMap 1), [CMap [(''a'', VMap 1)], CMap [(''c'', VInt 1)]])"
proof -
  have "JsonPathLookup no_ext (Suc 0) [CMap [(''a'', VMap 1)], CMap [(''c'', VInt 1)]] (VMap 0) ''$.a''
     = (Ok (VMap 1), [CMap [(''a'', VMap 1)], CMap [(''c'', VInt 1)]])"
    by code_simp
  with Lookup_scan_short_circuits [of no_ext "Suc 0" "''''" "[]" "''''" ANil "[]"
      "[CMap [(''a'', VMap 1)], CMap [(''c'', VInt 1)]]" "VMap 0" "''''"]
  show ?thesis by simp
qed

section \<open>Filter clauses\<close>

text \<open>A run of characters without space and quote is added to the part being read.\<close>

lemma parse_filter_plain_run:
  "CHR '' '' \<notin> set cs \<Longrightarrow> CHR 0x27 \<notin> set cs \<Longrightarrow>
   parse_filter_loop (cs @ rest) idx tmp stage emb r
     = parse_filter_loop rest (idx + length cs) (tmp @ cs) stage emb r"
  by (induction cs arbitrary: idx tmp) auto











text \<open>
  With a single quote in the operand the two clauses never parse alike: once a quote is
  read, \<^verbatim>\<open>str_embrace\<close> stays set, and the space of \<open>lp exists\<close> becomes part of the
  operand.
\<close>

lemma parse_filter_loop_no_space:
  "CHR '' '' \<notin> set cs \<Longrightarrow> CHR '' '' \<notin> set tmp \<Longrightarrow> CHR '' '' \<notin> set (fst r) \<Longrightarrow>
   \<exists>lp op rp. parse_filter_loop cs idx tmp 0 emb r = Ok (lp, op, rp) \<and> CHR '' '' \<notin> set lp"
proof (induction cs arbitrary: idx tmp emb r)
  case Nil
  then show ?case by (cases r) auto
next
  case (Cons c cs)
  show ?case
  proof (cases "c = CHR 0x27")
    case True
    show ?thesis
    proof (cases emb)
      case True
      have "CHR '' '' \<notin> set (fst (assign_stage 0 tmp r))"
        using Cons.prems(2) by (cases r) (simp add: assign_stage_def)
      from Cons.IH [OF _ _ this, of "''''" "Suc idx" True] Cons.prems(1) \<open>c = CHR 0x27\<close> True
      show ?thesis by simp
    next
      case False
      from Cons.IH [OF _ Cons.prems(2,3), of "Suc idx" True] Cons.prems(1) \<open>c = CHR 0x27\<close> False
      show ?thesis by simp
    qed
  next
    case False
    with Cons.prems(1) have c: "c \<noteq> CHR '' ''" "c \<noteq> CHR 0x27" by auto
    from Cons.prems(1,2) have "CHR '' '' \<notin> set (tmp @ [c])" by auto
    from Cons.IH [OF _ this Cons.prems(3), of "Suc idx" emb] Cons.prems(1) c show ?thesis by simp
  qed
qed

lemma parse_filter_loop_embraced_space:
  "CHR '' '' \<in> set tmp \<Longrightarrow> CHR 0x27 \<notin> set cs \<Longrightarrow>
   \<exists>lp op rp. parse_filter_loop cs idx tmp 0 True r = Ok (lp, op, rp) \<and> CHR '' '' \<in> set lp"
proof (induction cs arbitrary: idx tmp)
  case Nil
  then show ?case by (cases r) auto
next
  case (Cons c cs)
  from Cons.prems(1) have "CHR '' '' \<in> set (tmp @ [c])" by simp
  from Cons.IH [OF this, of "Suc idx"] Cons.prems(2) show ?case by auto
qed

lemma parse_filter_loop_quoted_exists:
  "CHR '' '' \<notin> set cs \<Longrightarrow> emb \<or> CHR 0x27 \<in> set cs \<Longrightarrow>
   \<exists>lp op rp. parse_filter_loop (cs @ '' exists'') idx tmp 0 emb r = Ok (lp, op, rp)
      \<and> CHR '' '' \<in> set lp"
proof (induction cs arbitrary: idx tmp emb r)
  case Nil
  then have emb by simp
  have "CHR '' '' \<in> set (tmp @ '' '')" by simp
  from parse_filter_loop_embraced_space [OF this, of "''exists''" "Suc idx" r] \<open>emb\<close>
  show ?case by simp
next
  case (Cons c cs)
  from Cons.prems(1) have c: "c \<noteq> CHR '' ''" and cs: "CHR '' '' \<notin> set cs" by auto
  show ?case
  proof (cases "c = CHR 0x27")
    case True
    show ?thesis
    proof (cases emb)
      case True
      from Cons.IH [OF cs, of True "Suc idx" "''''" "assign_stage 0 tmp r"] \<open>c = CHR 0x27\<close> True
      show ?thesis by simp
    next
      case False
      from Cons.IH [OF cs, of True "Suc idx" tmp r] \<open>c = CHR 0x27\<close> False
      show ?thesis by simp
    qed
  next
    case False
    with Cons.prems(2) have "emb \<or> CHR 0x27 \<in> set cs" by auto
    from Cons.IH [OF cs this, of "Suc idx" "tmp @ [c]" r] c False show ?thesis by simp
  qed
qed

lemma parse_filter_quoted_differs:
  assumes "CHR '' '' \<notin> set lp" "CHR 0x27 \<in> set lp"
  shows "parse_filter (lp @ '' exists'') \<noteq> parse_filter lp"
proof -
  from parse_filter_loop_no_space [OF assms(1), of "''''" "('''', '''', '''')" 0 False]
  obtain l1 o1 r1 where 1: "parse_filter lp = Ok (l1, o1, r1)" and n: "CHR '' '' \<notin> set l1"
    by (auto simp add: parse_filter_def)
  from parse_filter_loop_quoted_exists [OF assms(1), of False 0 "''''" "('''', '''', '''')"] assms(2)
  obtain l2 o2 r2 where 2: "parse_filter (lp @ '' exists'') = Ok (l2, o2, r2)"
    and y: "CHR '' '' \<in> set l2"
    by (auto simp add: parse_filter_def)
  from 1 2 n y show ?thesis by auto
qed

text \<open>
  The tokenizer on a path \<open>$.key[?(clause)]\<close>: the name up to the bracket, then the
  bracket group up to its closing bracket.
\<close>

lemma tokenize_loop_plain_run:
  "CHR ''.'' \<notin> set cs \<Longrightarrow> CHR ''['' \<notin> set cs \<Longrightarrow> CHR ''['' \<notin> set token \<Longrightarrow>
   tokenize_loop (cs @ rest) tokens token = tokenize_loop rest tokens (token @ cs)"
proof (induction cs arbitrary: token)
  case Nil
  then show ?case by simp
next
  case (Cons x cs)
  from Cons.prems have x: "x \<noteq> CHR ''.''" "x \<noteq> CHR ''[''" by auto
  from x have n1: "token @ [x] \<noteq> ''.''" by (cases token) auto
  from x have n2: "token @ [x] \<noteq> ''..''" by (cases token rule: rev_cases) auto
  from Cons.prems x have br: "CHR ''['' \<notin> set (token @ [x])" by auto
  have "tokenize_loop ((x # cs) @ rest) tokens token = tokenize_loop (cs @ rest) tokens (token @ [x])"
    using n1 n2 br x by (simp add: Let_def)
  also have "\<dots> = tokenize_loop rest tokens ((token @ [x]) @ cs)"
    using Cons.prems br by (intro Cons.IH) auto
  finally show ?case by simp
qed

lemma tokenize_loop_bracket_run:
  "CHR '']'' \<notin> set cs \<Longrightarrow> CHR ''['' \<in> set token \<Longrightarrow>
   tokenize_loop (cs @ rest) tokens token = tokenize_loop rest tokens (token @ cs)"
proof (induction cs arbitrary: token)
  case Nil
  then show ?case by simp
next
  case (Cons x cs)
  from Cons.prems have x: "x \<noteq> CHR '']''" by auto
  from Cons.prems have br: "CHR ''['' \<in> set (token @ [x])" by auto
  then have n1: "token @ [x] \<noteq> ''.''" and n2: "token @ [x] \<noteq> ''..''" by auto
  have "tokenize_loop ((x # cs) @ rest) tokens token = tokenize_loop (cs @ rest) tokens (token @ [x])"
    using br x by (simp only: append_Cons tokenize_loop.simps Let_def n1 n2 if_False)
       simp
  also have "\<dots> = tokenize_loop rest tokens ((token @ [x]) @ cs)"
    using Cons.prems br by (intro Cons.IH) auto
  finally show ?case by simp
qed

lemma tokenize_filter_path:
  assumes "CHR ''.'' \<notin> set key" "CHR ''['' \<notin> set key" "CHR '']'' \<notin> set flt"
  shows "tokenize (''$.'' @ key @ ''[?('' @ flt @ '')]'') = Ok [''$'', key @ ''[?('' @ flt @ '')]'']"
proof -
  have "tokenize (''$.'' @ key @ ''[?('' @ flt @ '')]'')
          = tokenize_loop (key @ (''[?('' @ flt @ '')]'')) [''$''] ''.''"
    by (simp add: tokenize_def Let_def)
  also have "\<dots> = tokenize_loop (''[?('' @ flt @ '')]'') [''$''] (''.'' @ key)"
    by (rule tokenize_loop_plain_run) (use assms in simp_all)
  also have "\<dots> = tokenize_loop ((''?('' @ flt @ '')'') @ '']'') [''$''] (''.'' @ key @ ''['')"
    using assms(1,2) by (cases key) (auto simp add: Let_def)
  also have "\<dots> = tokenize_loop '']'' [''$''] ((''.'' @ key @ ''['') @ (''?('' @ flt @ '')''))"
    by (rule tokenize_loop_bracket_run) (use assms in simp_all)
  also have "\<dots> = Ok [''$'', key @ ''[?('' @ flt @ '')]'']"
    by (simp add: Let_def has_suffix_def tokenize_finish_def)
  finally show ?thesis .
qed

lemma index_byte_first:
  "c \<notin> set xs \<Longrightarrow> index_byte (xs @ c # ys) c = Some (length xs)"
  by (induction xs) auto

lemma parse_token_filter:
  assumes "CHR ''['' \<notin> set key" "trim_space flt = flt" "checkFilter flt"
  shows "parse_token (key @ ''[?('' @ flt @ '')]'') = Ok (FilterOp, key, AStr flt, None)"
proof -
  let ?token = "key @ ''[?('' @ flt @ '')]''"
  have ne: "?token \<noteq> ''$''" "?token \<noteq> ''*''" by (cases key; simp)+
  have idx: "index_byte ?token (CHR ''['') = Some (length key)"
    using assms(1) index_byte_first [of "CHR ''[''" key "''?('' @ flt @ '')]''"] by simp
  show ?thesis
    unfolding parse_token_def
    using ne assms(2,3) idx
    by (simp add: Let_def butlast_append last_index_byte_def substring_def)
qed

text \<open>A clause with three spaces before any quote fails at the third one.\<close>

lemma parse_filter_three_spaces:
  assumes "CHR '' '' \<notin> set a" "CHR 0x27 \<notin> set a"
     "CHR '' '' \<notin> set b" "CHR 0x27 \<notin> set b"
     "CHR '' '' \<notin> set c" "CHR 0x27 \<notin> set c"
  shows "parse_filter (a @ '' '' @ b @ '' '' @ c @ '' '' @ d)
     = Err (ErrFilterInvalidChar (length a + length b + length c + 2) (CHR '' ''))"
  by (simp add: parse_filter_def parse_filter_plain_run assms)

text \<open>
  Before a scan step, \<^verbatim>\<open>Lookup\<close> on a program is \<^verbatim>\<open>Lookup\<close> on its first steps, then on the
  steps that follow.
\<close>

lemma and_then_assoc:
  "and_then (and_then r f) g = and_then r (\<lambda>v h. and_then (f v h) g)"
proof (cases r)
  case (Pair x h)
  then show ?thesis by (cases x) simp_all
qed

lemma Lookup_loop_append:
  "ScanOp \<notin> s_op ` set pre \<Longrightarrow>
   Lookup_loop X n root (pre @ rest) h obj
     = and_then (Lookup_loop X n root pre h obj) (\<lambda>v h'. Lookup_loop X n root rest h' v)"
proof (induction pre arbitrary: h obj)
  case Nil
  then show ?case by simp
next
  case (Cons s ss)
  then have IH: "\<And>h obj. Lookup_loop X n root (ss @ rest) h obj
     = and_then (Lookup_loop X n root ss h obj) (\<lambda>v h'. Lookup_loop X n root rest h' v)"
    and ns: "s_op s \<noteq> ScanOp" by auto
  show ?case
    using ns
    by (cases "s_op s")
       (auto simp add: IH and_then_assoc split: option.splits args_t.splits prod.splits
             intro!: arg_cong2 [where f = and_then] ext)
qed

text \<open>
  Claim C8 (a filter clause of more than two stages is refused by the compiler) fails:
  \<^verbatim>\<open>parse_token\<close> only looks for the parentheses and the prefix of the clause, and the path
  \<open>$.a[?(@.x > 1 2 3)]\<close> compiles.
\<close>

theorem Compile_accepts_long_filter_counterexample:
  "Compile ''$.a[?(@.x > 1 2 3)]''
     = Ok \<lparr>c_path = ''$.a[?(@.x > 1 2 3)]'',
           c_steps = [\<lparr>s_op = FilterOp, s_key = ''a'', s_args = AStr ''@.x > 1 2 3''\<rparr>]\<rparr>"
  by code_simp

text \<open>
  Claim C8 as amended. Let the clause have three spaces before its first single quote, if
  it has one: three parts \<open>a\<close>, \<open>b\<close>, \<open>c\<close> without space and quote, each followed by a
  space (the third space is where \<^verbatim>\<open>parse_filter\<close> counts a stage too many). Then the error
  is returned when a filter step with this clause is evaluated: \<^verbatim>\<open>get_filtered\<close> returns it
  for every container, and \<^verbatim>\<open>Lookup\<close> returns it from a filter step at any place of a
  program, once the steps before it (with no scan step among them) and the key of the step
  have resolved. And compilation of the path \<open>$.key[?(clause)]\<close> succeeds, with a filter
  step that carries the clause as it is, for every key without \<open>.\<close> and \<open>[\<close> and every such
  clause that starts with \<open>@.\<close> or \<open>$.\<close>, has no \<open>]\<close> and no white space at its ends;
  \<^verbatim>\<open>JsonPathLookup\<close> of that path returns the error once the key has resolved.
\<close>

theorem filter_stage_error_at_evaluation:
  assumes a: "CHR '' '' \<notin> set a" "CHR 0x27 \<notin> set a"
      and b: "CHR '' '' \<notin> set b" "CHR 0x27 \<notin> set b"
      and c: "CHR '' '' \<notin> set c" "CHR 0x27 \<notin> set c"
      and flt: "flt = a @ '' '' @ b @ '' '' @ c @ '' '' @ d"
  shows "get_filtered X n h obj root flt
           = (Err (ErrFilterInvalidChar (length a + length b + length c + 2) (CHR '' '')), h)
         \<and> (Lookup X n \<lparr>c_path = q, c_steps = pre\<rparr> hs root = (Ok cur, hc)
              \<and> ScanOp \<notin> s_op ` set pre \<and> get_key n hc cur key = (Ok sub, hf)
            \<longrightarrow> Lookup X n
                  \<lparr>c_path = p,
                   c_steps = pre @ \<lparr>s_op = FilterOp, s_key = key, s_args = AStr flt\<rparr> # post\<rparr>
                  hs root
                = (Err (ErrFilterInvalidChar (length a + length b + length c + 2) (CHR '' '')), hf))
         \<and> (CHR ''.'' \<notin> set key \<and> CHR ''['' \<notin> set key \<and> CHR '']'' \<notin> set flt
              \<and> trim_space flt = flt \<and> checkFilter flt
            \<longrightarrow> Compile (''$.'' @ key @ ''[?('' @ flt @ '')]'')
                  = Ok \<lparr>c_path = ''$.'' @ key @ ''[?('' @ flt @ '')]'',
                        c_steps = [\<lparr>s_op = FilterOp, s_key = key, s_args = AStr flt\<rparr>]\<rparr>
                \<and> (get_key n h root key = (Ok tgt, hk)
                     \<longrightarrow> JsonPathLookup X n h root (''$.'' @ key @ ''[?('' @ flt @ '')]'')
                         = (Err (ErrFilterInvalidChar (length a + length b + length c + 2)
                                   (CHR '' '')), hk)))"
proof -
  let ?e = "ErrFilterInvalidChar (length a + length b + length c + 2) (CHR '' '')"
  let ?s = "\<lparr>s_op = FilterOp, s_key = key, s_args = AStr flt\<rparr>"
  have pf: "parse_filter flt = Err ?e"
    unfolding flt by (rule parse_filter_three_spaces [OF a b c])
  have gf: "\<And>h obj. get_filtered X n h obj root flt = (Err ?e, h)"
    by (simp add: get_filtered_def pf)
  have step: "\<And>h obj h' obj'. get_key n h obj key = (Ok obj', h') \<Longrightarrow>
                Lookup_loop X n root (?s # post) h obj = (Err ?e, h')"
    by (simp add: gf)
  have prog: "Lookup X n \<lparr>c_path = q, c_steps = pre\<rparr> hs root = (Ok cur, hc)
              \<and> ScanOp \<notin> s_op ` set pre \<and> get_key n hc cur key = (Ok sub, hf)
            \<longrightarrow> Lookup X n \<lparr>c_path = p, c_steps = pre @ ?s # post\<rparr> hs root = (Err ?e, hf)"
  proof (intro impI, elim conjE)
    assume pre: "Lookup X n \<lparr>c_path = q, c_steps = pre\<rparr> hs root = (Ok cur, hc)"
      and ns: "ScanOp \<notin> s_op ` set pre" and gk: "get_key n hc cur key = (Ok sub, hf)"
    from pre have "Lookup_loop X n root pre hs root = (Ok cur, hc)" by (simp add: Lookup_def)
    with Lookup_loop_append [OF ns, of X n root "?s # post" hs root]
    have "Lookup_loop X n root (pre @ ?s # post) hs root = Lookup_loop X n root (?s # post) hc cur"
      by simp
    with step [OF gk] show "Lookup X n \<lparr>c_path = p, c_steps = pre @ ?s # post\<rparr> hs root = (Err ?e, hf)"
      by (simp add: Lookup_def)
  qed
  have path: "CHR ''.'' \<notin> set key \<and> CHR ''['' \<notin> set key \<and> CHR '']'' \<notin> set flt
              \<and> trim_space flt = flt \<and> checkFilter flt
            \<longrightarrow> Compile (''$.'' @ key @ ''[?('' @ flt @ '')]'')
                  = Ok \<lparr>c_path = ''$.'' @ key @ ''[?('' @ flt @ '')]'', c_steps = [?s]\<rparr>
                \<and> (get_key n h root key = (Ok tgt, hk)
                     \<longrightarrow> JsonPathLookup X n h root (''$.'' @ key @ ''[?('' @ flt @ '')]'')
                         = (Err ?e, hk))"
  proof (intro impI, elim conjE)
    assume key: "CHR ''.'' \<notin> set key" "CHR ''['' \<notin> set key"
      and clause: "CHR '']'' \<notin> set flt" "trim_space flt = flt" "checkFilter flt"
    have tok: "tokenize (''$.'' @ key @ ''[?('' @ flt @ '')]'') = Ok [''$'', key @ ''[?('' @ flt @ '')]'']"
      by (rule tokenize_filter_path [OF key clause(1)])
    have pt: "parse_token (key @ ''[?('' @ flt @ '')]'') = Ok (FilterOp, key, AStr flt, None)"
      by (rule parse_token_filter [OF key(2) clause(2,3)])
    have comp: "Compile (''$.'' @ key @ ''[?('' @ flt @ '')]'')
                  = Ok \<lparr>c_path = ''$.'' @ key @ ''[?('' @ flt @ '')]'', c_steps = [?s]\<rparr>"
      unfolding Compile_def tok using pt by simp
    have look: "get_key n h root key = (Ok tgt, hk) \<longrightarrow>
              JsonPathLookup X n h root (''$.'' @ key @ ''[?('' @ flt @ '')]'') = (Err ?e, hk)"
      unfolding JsonPathLookup_def comp by (simp add: Lookup_def gf)
    from comp look
    show "Compile (''$.'' @ key @ ''[?('' @ flt @ '')]'')
                  = Ok \<lparr>c_path = ''$.'' @ key @ ''[?('' @ flt @ '')]'', c_steps = [?s]\<rparr>
                \<and> (get_key n h root key = (Ok tgt, hk)
                     \<longrightarrow> JsonPathLookup X n h root (''$.'' @ key @ ''[?('' @ flt @ '')]'')
                         = (Err ?e, hk))" by blast
  qed
  from gf prog path show ?thesis by blast
qed

text \<open>
  The clause \<open>@.x > 1 2 3\<close>: in the path \<open>$.a[?(@.x > 1 2 3)]\<close> on an empty array, and as
  the second of three steps.
\<close>

theorem filter_stage_error_at_evaluation_witness:
  "Compile ''$.a[?(@.x > 1 2 3)]''
     = Ok \<lparr>c_path = ''$.a[?(@.x > 1 2 3)]'',
           c_steps = [\<lparr>s_op = FilterOp, s_key = ''a'', s_args = AStr ''@.x > 1 2 3''\<rparr>]\<rparr>
   \<and> JsonPathLookup no_ext (Suc 0) [CMap [(''a'', VSlice 1 0 0)], CArr []] (VMap 0)
        ''$.a[?(@.x > 1 2 3)]''
     = (Err (ErrFilterInvalidChar 7 (CHR '' '')), [CMap [(''a'', VSlice 1 0 0)], CArr []])
   \<and> Lookup no_ext (Suc 0)
        \<lparr>c_path = ''$.s.a[?(@.x > 1 2 3)].t'',
         c_steps = [\<lparr>s_op = KeyOp, s_key = ''s'', s_args = ANil\<rparr>,
                    \<lparr>s_op = FilterOp, s_key = ''a'', s_args = AStr ''@.x > 1 2 3''\<rparr>,
                    \<lparr>s_op = KeyOp, s_key = ''t'', s_args = ANil\<rparr>]\<rparr>
        [CMap [(''s'', VMap 1)], CMap [(''a'', VSlice 2 0 0)], CArr []] (VMap 0)
     = (Err (ErrFilterInvalidChar 7 (CHR '' '')),
        [CMap [(''s'', VMap 1)], CMap [(''a'', VSlice 2 0 0)], CArr []])"
proof -
  have a: "CHR '' '' \<notin> set ''@.x''" "CHR 0x27 \<notin> set ''@.x''" by simp_all
  have b: "CHR '' '' \<notin> set ''>''" "CHR 0x27 \<notin> set ''>''" by simp_all
  have c: "CHR '' '' \<notin> set ''1''" "CHR 0x27 \<notin> set ''1''" by simp_all
  have flt: "''@.x > 1 2 3'' = ''@.x'' @ '' '' @ ''>'' @ '' '' @ ''1'' @ '' '' @ ''2 3''" by simp
  have key: "CHR ''.'' \<notin> set ''a''" "CHR ''['' \<notin> set ''a''" by simp_all
  have clause: "CHR '']'' \<notin> set ''@.x > 1 2 3''" "trim_space ''@.x > 1 2 3'' = ''@.x > 1 2 3''"
    "checkFilter ''@.x > 1 2 3''"
    by (simp_all add: trim_space_def is_space_def checkFilter_def has_prefix_def)
  have gk: "get_key (Suc 0) [CMap [(''a'', VSlice 1 0 0)], CArr []] (VMap 0) ''a''
      = (Ok (VSlice 1 0 0), [CMap [(''a'', VSlice 1 0 0)], CArr []])"
    by (simp add: map_cell_def)
  have pre: "Lookup no_ext (Suc 0)
      \<lparr>c_path = ''$.s'', c_steps = [\<lparr>s_op = KeyOp, s_key = ''s'', s_args = ANil\<rparr>]\<rparr>
      [CMap [(''s'', VMap 1)], CMap [(''a'', VSlice 2 0 0)], CArr []] (VMap 0)
      = (Ok (VMap 1), [CMap [(''s'', VMap 1)], CMap [(''a'', VSlice 2 0 0)], CArr []])"
    by (simp add: Lookup_def lookupKey_def map_cell_def)
  have ns: "ScanOp \<notin> s_op ` set [\<lparr>s_op = KeyOp, s_key = ''s'', s_args = ANil\<rparr>]" by simp
  have gk2: "get_key (Suc 0) [CMap [(''s'', VMap 1)], CMap [(''a'', VSlice 2 0 0)], CArr []]
      (VMap 1) ''a''
      = (Ok (VSlice 2 0 0), [CMap [(''s'', VMap 1)], CMap [(''a'', VSlice 2 0 0)], CArr []])"
    by (simp add: map_cell_def)
  from filter_stage_error_at_evaluation [OF a b c flt,
      where X = no_ext and n = "Suc 0" and h = "[CMap [(''a'', VSlice 1 0 0)], CArr []]"
        and root = "VMap 0" and key = "''a''" and obj = "VSlice 1 0 0"
        and tgt = "VSlice 1 0 0" and hk = "[CMap [(''a'', VSlice 1 0 0)], CArr []]"
        and q = "''$.s''" and pre = "[\<lparr>s_op = KeyOp, s_key = ''s'', s_args = ANil\<rparr>]"
        and hs = "[CMap [(''s'', VMap 1)], CMap [(''a'', VSlice 2 0 0)], CArr []]"
        and cur = "VMap 1" and hc = "[CMap [(''s'', VMap 1)], CMap [(''a'', VSlice 2 0 0)], CArr []]"
        and sub = "VSlice 2 0 0"
        and hf = "[CMap [(''s'', VMap 1)], CMap [(''a'', VSlice 2 0 0)], CArr []]"
        and p = "''$.s.a[?(@.x > 1 2 3)].t''"
        and post = "[\<lparr>s_op = KeyOp, s_key = ''t'', s_args = ANil\<rparr>]"]
    key clause gk pre ns gk2
  show ?thesis by (simp del: get_key.simps)
qed

text \<open>
  \<^verbatim>\<open>parse_filter\<close> has no other error: after a quote it counts no space, and it returns
  the error only for a clause with three spaces before its first quote.
\<close>

lemma parse_filter_loop_embraced:
  "parse_filter_loop cs idx tmp stage True r \<noteq> Err e"
  by (induction cs arbitrary: idx tmp r) (auto split: prod.splits)

lemma parse_filter_loop_stage_error:
  "parse_filter_loop cs idx tmp stage False r = Err e \<Longrightarrow>
   3 \<le> stage + length (filter (\<lambda>c. c = CHR '' '') (takeWhile (\<lambda>c. c \<noteq> CHR 0x27) cs))"
proof (induction cs arbitrary: idx tmp stage r)
  case Nil
  then show ?case by (auto split: prod.splits if_splits)
next
  case (Cons c cs)
  show ?case
  proof (cases "c = CHR 0x27")
    case True
    with Cons.prems parse_filter_loop_embraced show ?thesis by auto
  next
    case q: False
    show ?thesis
    proof (cases "c = CHR '' ''")
      case True
      show ?thesis
      proof (cases "2 < stage + 1")
        case True
        with \<open>c = CHR '' ''\<close> show ?thesis by simp
      next
        case False
        with True Cons.prems
        have "parse_filter_loop cs (Suc idx) '''' (stage + 1) False (assign_stage stage tmp r) = Err e"
          by simp
        from Cons.IH [OF this] True show ?thesis by simp
      qed
    next
      case False
      with q Cons.prems have "parse_filter_loop cs (Suc idx) (tmp @ [c]) stage False r = Err e"
        by simp
      from Cons.IH [OF this] False q show ?thesis by simp
    qed
  qed
qed

lemma parse_filter_stage_error_only:
  "parse_filter flt = Err e \<Longrightarrow>
   3 \<le> length (filter (\<lambda>c. c = CHR '' '') (takeWhile (\<lambda>c. c \<noteq> CHR 0x27) flt))"
  using parse_filter_loop_stage_error [of flt 0 "''''" 0 "('''', '''', '''')" e]
  by (simp add: parse_filter_def)

section \<open>Set, then Lookup\<close>




































text \<open>
  What the round trip above leaves out, on the root \<open>{"a":[1,2],"q":{"k":1}}\<close>: the
  path \<open>$\<close> has no last step and a nil value has no \<^verbatim>\<open>reflect.Value\<close> to follow, so \<^verbatim>\<open>Set\<close>
  panics; a negative last index is resolved from the end by \<^verbatim>\<open>get_idx\<close> but passed as it is
  to \<^verbatim>\<open>Index\<close>, which panics; with several indexes only the first element is set; a slice
  step is refused; a quoted last sub-key that exists is written as a new member of the
  inner object, under the outer name, and \<^verbatim>\<open>Lookup\<close> still finds the old value; and a quoted
  last sub-key that is the name itself is written as an object of its own.
\<close>

lemma Set_outside_plain_paths:
  "fst (Set no_ext (Suc 0) [CMap [(''a'', VSlice 1 0 2), (''q'', VMap 2)], CArr [VInt 1, VInt 2],
          CMap [(''k'', VInt 1)]] (VMap 0) ''$'' (VInt 5)) = Panic PanicIndex"
  "fst (Set no_ext (Suc 0) [CMap [(''a'', VSlice 1 0 2), (''q'', VMap 2)], CArr [VInt 1, VInt 2],
          CMap [(''k'', VInt 1)]] (VMap 0) ''$.q.k'' VNil) = Panic PanicZeroValue"
  "fst (Set no_ext (Suc 0) [CMap [(''a'', VSlice 1 0 2), (''q'', VMap 2)], CArr [VInt 1, VInt 2],
          CMap [(''k'', VInt 1)]] (VMap 0) ''$.a[-1]'' (VInt 5)) = Panic PanicIndex"
  "Set no_ext (Suc 0) [CMap [(''a'', VSlice 1 0 2), (''q'', VMap 2)], CArr [VInt 1, VInt 2],
          CMap [(''k'', VInt 1)]] (VMap 0) ''$.a[1,0]'' (VInt 5)
     = (Ok (), [CMap [(''a'', VSlice 1 0 2), (''q'', VMap 2)], CArr [VInt 1, VInt 5],
          CMap [(''k'', VInt 1)]])"
  "fst (Set no_ext (Suc 0) [CMap [(''a'', VSlice 1 0 2), (''q'', VMap 2)], CArr [VInt 1, VInt 2],
          CMap [(''k'', VInt 1)]] (VMap 0) ''$.a[0:1]'' (VInt 5)) = Err (ErrSetUnsupported RangeOp)"
  "Set no_ext (Suc 0) [CMap [(''a'', VSlice 1 0 2), (''q'', VMap 2)], CArr [VInt 1, VInt 2],
          CMap [(''k'', VInt 1)]] (VMap 0) (''$.q['' @ [CHR 0x27] @ ''k'' @ [CHR 0x27] @ '']'') (VInt 5)
     = (Ok (), [CMap [(''a'', VSlice 1 0 2), (''q'', VMap 2)], CArr [VInt 1, VInt 2],
          CMap [(''k'', VInt 1), (''q'', VMap 3)], CMap [(''k'', VInt 5)]])"
  "fst (JsonPathLookup no_ext (Suc 0)
          [CMap [(''a'', VSlice 1 0 2), (''q'', VMap 2)], CArr [VInt 1, VInt 2],
           CMap [(''k'', VInt 1), (''q'', VMap 3)], CMap [(''k'', VInt 5)]] (VMap 0)
          (''$.q['' @ [CHR 0x27] @ ''k'' @ [CHR 0x27] @ '']'')) = Ok (VInt 1)"
  "Set no_ext (Suc 0) [CMap [(''a'', VSlice 1 0 2), (''q'', VMap 2)], CArr [VInt 1, VInt 2],
          CMap [(''k'', VInt 1)]] (VMap 0) (''$.q['' @ [CHR 0x27] @ ''q'' @ [CHR 0x27] @ '']'') (VInt 5)
     = (Ok (), [CMap [(''a'', VSlice 1 0 2), (''q'', VMap 2)], CArr [VInt 1, VInt 2],
          CMap [(''k'', VInt 1), (''q'', VMap 3)], CMap [(''q'', VInt 5)]])"
  "fst (JsonPathLookup no_ext (Suc 0)
          [CMap [(''a'', VSlice 1 0 2), (''q'', VMap 2)], CArr [VInt 1, VInt 2],
           CMap [(''k'', VInt 1), (''q'', VMap 3)], CMap [(''q'', VInt 5)]] (VMap 0)
          (''$.q['' @ [CHR 0x27] @ ''q'' @ [CHR 0x27] @ '']'')) = Ok (VMap 3)"
  by code_simp+

end
